theory Spec2Isabelle
  imports Complex_Main "HOL-Library.Log_Nat"
begin

section \<open>JavaScript values\<close>

text \<open>
  The extension reads untyped values from the host: configuration values
  (\<^verbatim>\<open>config.get\<close> returns whatever the settings file holds; the TypeScript type
  argument is not checked at run time) and webview messages. A number is a
  finite double, given by the real number it stands for, an infinity or NaN.
\<close>

datatype jsnum = Fin real | PosInf | NegInf | NaN

datatype jsval =
    JUndefined
  | JNull
  | JBool bool
  | JNum jsnum
  | JStr string
  | JArr "jsval list"
  | JObj "(string \<times> jsval) list"

text \<open>JavaScript truthiness, as used by \<^verbatim>\<open>!x\<close> and \<^verbatim>\<open>if (x)\<close>.\<close>

fun truthy :: "jsval \<Rightarrow> bool" where
  "truthy JUndefined = False"
| "truthy JNull = False"
| "truthy (JBool b) = b"
| "truthy (JNum (Fin r)) = (r \<noteq> 0)"
| "truthy (JNum NaN) = False"
| "truthy (JNum PosInf) = True"
| "truthy (JNum NegInf) = True"
| "truthy (JStr s) = (s \<noteq> [])"
| "truthy (JArr xs) = True"
| "truthy (JObj fs) = True"

fun typeof :: "jsval \<Rightarrow> string" where
  "typeof JUndefined = ''undefined''"
| "typeof JNull = ''object''"
| "typeof (JBool b) = ''boolean''"
| "typeof (JNum n) = ''number''"
| "typeof (JStr s) = ''string''"
| "typeof (JArr xs) = ''object''"
| "typeof (JObj fs) = ''object''"

datatype error = TypeError | AssetReadError | ConfigurationWriteError

text \<open>
  The property read \<^verbatim>\<open>message.type\<close>: a TypeError on undefined and null, the
  stored field of an object (properties as an association list, first entry of
  a key), undefined on arrays and primitives, which have no such property.
\<close>

fun get_type :: "jsval \<Rightarrow> error + jsval" where
  "get_type JUndefined = Inl TypeError"
| "get_type JNull = Inl TypeError"
| "get_type (JObj fs) = Inr (case map_of fs ''type'' of None \<Rightarrow> JUndefined | Some v \<Rightarrow> v)"
| "get_type v = Inr JUndefined"

section \<open>Double-precision arithmetic\<close>

text \<open>
  The result of an arithmetic operation on numbers is the exact result rounded
  to the nearest double, ties to the even significand: a significand of 53
  bits, the unit in the last place never below \<^verbatim>\<open>2^-1074\<close>, and an infinity
  when the rounded value reaches \<^verbatim>\<open>2^1024\<close>.
\<close>

definition round_half_even :: "real \<Rightarrow> int" where
  "round_half_even t =
     (let f = \<lfloor>t\<rfloor>; d = t - of_int f
      in if d < 1 / 2 then f else if 1 / 2 < d then f + 1 else if even f then f else f + 1)"

definition pow2 :: "int \<Rightarrow> real" where
  "pow2 k = (if 0 \<le> k then 2 ^ nat k else 1 / 2 ^ nat (- k))"

text \<open>The exponent \<open>k\<close> with \<^verbatim>\<open>2^k <= x < 2^(k+1)\<close>, for a positive \<open>x\<close>.\<close>

definition ilog2 :: "real \<Rightarrow> int" where
  "ilog2 x =
     (if 1 \<le> x then int (floorlog 2 (nat \<lfloor>x\<rfloor>)) - 1
      else - int (floorlog 2 (nat \<lceil>1 / x\<rceil> - 1)))"

definition ulp_exponent :: "real \<Rightarrow> int" where
  "ulp_exponent x = max (ilog2 \<bar>x\<bar> - 52) (- 1074)"

definition overflow :: "real \<Rightarrow> jsnum" where
  "overflow y = (if 2 ^ 1024 \<le> y then PosInf else if y \<le> - (2 ^ 1024) then NegInf else Fin y)"

definition double_of_real :: "real \<Rightarrow> jsnum" where
  "double_of_real x =
     (if x = 0 then Fin 0
      else (let u = pow2 (ulp_exponent x)
            in overflow (of_int (round_half_even (x / u)) * u)))"

text \<open>\<^verbatim>\<open>Math.floor\<close> of a finite number, as an integer; none for an infinity and NaN.\<close>

definition js_floor :: "jsnum \<Rightarrow> int option" where
  "js_floor n = (case n of Fin y \<Rightarrow> Some \<lfloor>y\<rfloor> | _ \<Rightarrow> None)"

section \<open>Constants and the animation registry\<close>

datatype ScreenSaverId = Beziers | Mystify | FlyingWindows

datatype ScreenSaverMode = Concrete ScreenSaverId | Random

fun SCREENSAVERS :: "ScreenSaverId \<Rightarrow> string \<times> string" where
  "SCREENSAVERS Beziers = (''Beziers'', ''screensavers/beziers.html'')"
| "SCREENSAVERS Mystify = (''Mystify'', ''screensavers/mystify.html'')"
| "SCREENSAVERS FlyingWindows = (''Flying Windows'', ''screensavers/flying-windows.html'')"

definition INTERNAL_ACTIVITY_IGNORE_MS :: int where
  "INTERNAL_ACTIVITY_IGNORE_MS = 500"

definition WEBVIEW_ACTIVITY_MESSAGE_TYPE :: string where
  "WEBVIEW_ACTIVITY_MESSAGE_TYPE = ''otakScreensaver.userActivity''"

definition CODESPACES_KEEPALIVE_DEFAULT_INTERVAL_MINUTES :: real where
  "CODESPACES_KEEPALIVE_DEFAULT_INTERVAL_MINUTES = 3"

definition SETTINGS_MIGRATION_VERSION :: real where
  "SETTINGS_MIGRATION_VERSION = 1"

section \<open>The host environment\<close>

text \<open>
  What a callback observes of the host while it runs: the effective
  \<^verbatim>\<open>otakScreensaver\<close> configuration section, the window focus, the clock
  (\<^verbatim>\<open>Date.now()\<close>, constant during one callback, which runs to completion), the
  value of \<^verbatim>\<open>Math.random()\<close>, the process environment, and the outcome of
  \<^verbatim>\<open>getWebviewHtml\<close> for an asset file and the display-sleep flag (\<open>None\<close>
  when reading the asset throws).
\<close>

record env =
  config :: "string \<rightharpoonup> jsval"
  focused :: bool
  now :: int
  random_mantissa :: nat
  random_scale :: nat
  process_env :: "string \<rightharpoonup> string"
  webviewHtml :: "string \<Rightarrow> bool \<Rightarrow> string option"

text \<open>
  \<^verbatim>\<open>Math.random()\<close> returns a double that is at least 0 and below 1. These are
  the numbers \<^verbatim>\<open>m / 2^j\<close> with a significand \<open>m\<close> below \<^verbatim>\<open>2^53\<close> and \<open>j\<close>
  from 53 to 1074, so the two fields of the environment are read as such a
  number.
\<close>

definition Math_random :: "env \<Rightarrow> real" where
  "Math_random e =
     real (random_mantissa e mod 2 ^ 53) / 2 ^ (min 1074 (max 53 (random_scale e)))"

text \<open>\<^verbatim>\<open>config.get(key, defaultValue)\<close>: the default replaces an undefined value only.\<close>

definition config_get :: "(string \<rightharpoonup> jsval) \<Rightarrow> string \<Rightarrow> jsval \<Rightarrow> jsval" where
  "config_get cfg key dflt =
     (case cfg key of None \<Rightarrow> dflt | Some JUndefined \<Rightarrow> dflt | Some v \<Rightarrow> v)"

section \<open>Configuration accessors\<close>

definition getConfiguredMode :: "env \<Rightarrow> ScreenSaverMode" where
  "getConfiguredMode e =
     (let mode = config_get (config e) ''mode'' (JStr ''random'') in
      if mode = JStr ''beziers'' then Concrete Beziers
      else if mode = JStr ''mystify'' then Concrete Mystify
      else if mode = JStr ''flyingWindows'' then Concrete FlyingWindows
      else if mode = JStr ''random'' then Random
      else Random)"

definition getAutoStartEnabled :: "env \<Rightarrow> jsval" where
  "getAutoStartEnabled e = config_get (config e) ''autoStart'' (JBool True)"

definition getIdleMinutes :: "env \<Rightarrow> real" where
  "getIdleMinutes e =
     (let minutes = config_get (config e) ''idleMinutes'' (JNum (Fin 5)) in
      case minutes of
        JNum (Fin r) \<Rightarrow> if r \<le> 0 then 5 else r
      | _ \<Rightarrow> 5)"

definition getIdleMs :: "env \<Rightarrow> jsnum" where
  "getIdleMs e = double_of_real (max 1 (getIdleMinutes e) * 60000)"

definition getPreventDisplaySleepEnabled :: "env \<Rightarrow> jsval" where
  "getPreventDisplaySleepEnabled e = config_get (config e) ''preventDisplaySleep'' (JBool True)"

definition getCodespacesKeepAliveEnabled :: "env \<Rightarrow> jsval" where
  "getCodespacesKeepAliveEnabled e = config_get (config e) ''codespacesKeepAlive'' (JBool True)"

definition getCodespacesKeepAliveIntervalMinutes :: "env \<Rightarrow> real" where
  "getCodespacesKeepAliveIntervalMinutes e =
     (let minutes = config_get (config e) ''codespacesKeepAliveIntervalMinutes''
                      (JNum (Fin CODESPACES_KEEPALIVE_DEFAULT_INTERVAL_MINUTES)) in
      case minutes of
        JNum (Fin r) \<Rightarrow> if r \<le> 0 then CODESPACES_KEEPALIVE_DEFAULT_INTERVAL_MINUTES else r
      | _ \<Rightarrow> CODESPACES_KEEPALIVE_DEFAULT_INTERVAL_MINUTES)"

definition getCodespacesKeepAliveIntervalMs :: "env \<Rightarrow> jsnum" where
  "getCodespacesKeepAliveIntervalMs e =
     double_of_real (max 1 (getCodespacesKeepAliveIntervalMinutes e) * 60000)"

text \<open>\<^verbatim>\<open>String.prototype.toLowerCase\<close> on the ASCII letters.\<close>

definition toLowerChar :: "char \<Rightarrow> char" where
  "toLowerChar c =
     (let n = (of_char c :: nat) in if 65 \<le> n \<and> n \<le> 90 then char_of (n + 32) else c)"

definition isCodespacesEnvironment :: "env \<Rightarrow> bool" where
  "isCodespacesEnvironment e =
     (case process_env e ''CODESPACES'' of
        Some codespaces \<Rightarrow>
          if map toLowerChar codespaces = ''true'' then True
          else (case process_env e ''GITHUB_CODESPACES_PORT_FORWARDING_DOMAIN'' of
                  Some forwardingDomain \<Rightarrow> length forwardingDomain > 0
                | None \<Rightarrow> False)
      | None \<Rightarrow>
          (case process_env e ''GITHUB_CODESPACES_PORT_FORWARDING_DOMAIN'' of
             Some forwardingDomain \<Rightarrow> length forwardingDomain > 0
           | None \<Rightarrow> False))"

text \<open>
  \<^verbatim>\<open>resolveScreenSaver\<close>, with the value \<open>r\<close> of \<^verbatim>\<open>Math.random()\<close> as an argument.
  The product with the length of the array is a double product. An index
  outside the array, or one that is no integer, reads undefined (\<open>None\<close>).
\<close>

definition resolveScreenSaver :: "real \<Rightarrow> ScreenSaverMode \<Rightarrow> ScreenSaverId option" where
  "resolveScreenSaver r mode =
     (case mode of
        Concrete i \<Rightarrow> Some i
      | Random \<Rightarrow>
          (let ids = [Beziers, Mystify, FlyingWindows]
           in case js_floor (double_of_real (r * real (length ids))) of
                None \<Rightarrow> None
              | Some k \<Rightarrow>
                  if 0 \<le> k \<and> k < int (length ids) then Some (ids ! nat k) else None))"

section \<open>Controller state\<close>

text \<open>
  The closure variables of \<^verbatim>\<open>activate\<close> (\<open>currentPanel\<close>, \<open>idleTimer\<close>,
  \<open>codespacesKeepAliveTimer\<close>, \<open>ignoreActivityUntil\<close>,
  \<open>sendingCodespacesKeepAlive\<close>) together with what the host holds for the
  extension: the pending timeouts and intervals (handle and delay in ms), the
  handles of the webview panels that are open, the calls of
  \<^verbatim>\<open>sendCodespacesKeepAliveHeartbeat\<close> that are suspended at an await, the
  counter that allocates handles, and whether the subscriptions are disposed.
\<close>

record WebviewPanel =
  panel_handle :: nat
  panel_title :: string
  panel_html :: string

datatype awaiting = CreateDirectory | Stat | SetContext

record state =
  currentPanel :: "WebviewPanel option"
  idleTimer :: "nat option"
  codespacesKeepAliveTimer :: "nat option"
  ignoreActivityUntil :: int
  sendingCodespacesKeepAlive :: bool
  timeouts :: "(nat \<times> int) list"
  intervals :: "(nat \<times> int) list"
  openPanels :: "nat list"
  heartbeats :: "awaiting list"
  nextHandle :: nat
  disposed :: bool

subsection \<open>Host primitives\<close>

text \<open>
  The timer functions of the runtime, which hands out a fresh handle for each
  timer. Node sets a delay that is not a number from 1 to \<^verbatim>\<open>2^31 - 1\<close> to 1 and
  truncates a delay that is no integer; a pending timer is recorded with the
  whole number of milliseconds that it is armed for.
\<close>

definition TIMEOUT_MAX :: real where
  "TIMEOUT_MAX = 2147483647"

definition timer_delay :: "jsnum \<Rightarrow> int" where
  "timer_delay after =
     (case after of
        Fin d \<Rightarrow> if 1 \<le> d \<and> d \<le> TIMEOUT_MAX then \<lfloor>d\<rfloor> else 1
      | _ \<Rightarrow> 1)"

definition setTimeout :: "jsnum \<Rightarrow> state \<Rightarrow> nat \<times> state" where
  "setTimeout ms s =
     (nextHandle s,
      s\<lparr>timeouts := timeouts s @ [(nextHandle s, timer_delay ms)],
        nextHandle := Suc (nextHandle s)\<rparr>)"

definition clearTimeout :: "nat \<Rightarrow> state \<Rightarrow> state" where
  "clearTimeout h s = s\<lparr>timeouts := filter (\<lambda>t. fst t \<noteq> h) (timeouts s)\<rparr>"

definition setInterval :: "jsnum \<Rightarrow> state \<Rightarrow> nat \<times> state" where
  "setInterval ms s =
     (nextHandle s,
      s\<lparr>intervals := intervals s @ [(nextHandle s, timer_delay ms)],
        nextHandle := Suc (nextHandle s)\<rparr>)"

definition clearInterval :: "nat \<Rightarrow> state \<Rightarrow> state" where
  "clearInterval h s = s\<lparr>intervals := filter (\<lambda>t. fst t \<noteq> h) (intervals s)\<rparr>"

definition createWebviewPanel :: "string \<Rightarrow> state \<Rightarrow> WebviewPanel \<times> state" where
  "createWebviewPanel title s =
     (\<lparr>panel_handle = nextHandle s, panel_title = title, panel_html = []\<rparr>,
      s\<lparr>openPanels := openPanels s @ [nextHandle s], nextHandle := Suc (nextHandle s)\<rparr>)"

subsection \<open>The idle timer and the ignore window\<close>

definition setIgnoreActivityFor :: "env \<Rightarrow> int \<Rightarrow> state \<Rightarrow> state" where
  "setIgnoreActivityFor e ms s = s\<lparr>ignoreActivityUntil := now e + ms\<rparr>"

definition isIgnoringActivity :: "env \<Rightarrow> state \<Rightarrow> bool" where
  "isIgnoringActivity e s = (now e < ignoreActivityUntil s)"

definition restartIdleTimer :: "env \<Rightarrow> state \<Rightarrow> state" where
  "restartIdleTimer e s =
     (let s1 = (case idleTimer s of
                  Some h \<Rightarrow> (clearTimeout h s)\<lparr>idleTimer := None\<rparr>
                | None \<Rightarrow> s)
      in if \<not> truthy (getAutoStartEnabled e) then s1
         else if \<not> focused e then s1
         else if currentPanel s1 \<noteq> None then s1
         else (let idleMs = getIdleMs e;
                   (h, s2) = setTimeout idleMs s1
               in s2\<lparr>idleTimer := Some h\<rparr>))"

subsection \<open>Showing and stopping the panel\<close>

text \<open>
  \<^verbatim>\<open>show\<close> returns the state it leaves and the exception it throws, if any:
  the destructuring of an undefined registry entry, or the asset read inside
  \<^verbatim>\<open>getWebviewHtml\<close>, which comes after the panel exists.
\<close>

definition "show" :: "env \<Rightarrow> ScreenSaverMode \<Rightarrow> state \<Rightarrow> state \<times> error option" where
  "show e mode s =
     (case resolveScreenSaver (Math_random e) mode of
        None \<Rightarrow> (s, Some TypeError)
      | Some resolved \<Rightarrow>
          (let (title, filename) = SCREENSAVERS resolved;
               s1 = setIgnoreActivityFor e INTERNAL_ACTIVITY_IGNORE_MS s;
               (p, s2) = (case currentPanel s1 of
                            None \<Rightarrow> createWebviewPanel (''ScreenSaver: '' @ title) s1
                          | Some p0 \<Rightarrow> (p0\<lparr>panel_title := ''ScreenSaver: '' @ title\<rparr>, s1));
               s3 = s2\<lparr>currentPanel := Some p\<rparr>
           in case webviewHtml e filename (truthy (getPreventDisplaySleepEnabled e)) of
                None \<Rightarrow> (s3, Some AssetReadError)
              | Some html \<Rightarrow> (s3\<lparr>currentPanel := Some (p\<lparr>panel_html := html\<rparr>)\<rparr>, None)))"

text \<open>The listener registered with \<^verbatim>\<open>currentPanel.onDidDispose\<close>.\<close>

definition onDidDispose :: "env \<Rightarrow> state \<Rightarrow> state" where
  "onDidDispose e s = restartIdleTimer e (s\<lparr>currentPanel := None\<rparr>)"

text \<open>
  \<^verbatim>\<open>panel.dispose()\<close>: the host closes an open panel and fires its dispose
  listeners before it returns; on a panel already disposed it does nothing.
\<close>

definition panel_dispose :: "env \<Rightarrow> WebviewPanel \<Rightarrow> state \<Rightarrow> state" where
  "panel_dispose e p s =
     (if panel_handle p \<in> set (openPanels s)
      then onDidDispose e (s\<lparr>openPanels := removeAll (panel_handle p) (openPanels s)\<rparr>)
      else s)"

definition stopScreensaver :: "env \<Rightarrow> state \<Rightarrow> state" where
  "stopScreensaver e s =
     (case currentPanel s of
        None \<Rightarrow> s
      | Some panel \<Rightarrow>
          (let s1 = s\<lparr>currentPanel := None\<rparr>;
               s2 = setIgnoreActivityFor e INTERNAL_ACTIVITY_IGNORE_MS s1;
               s3 = panel_dispose e panel s2
           in restartIdleTimer e s3))"

definition handleUserActivity :: "env \<Rightarrow> bool \<Rightarrow> state \<Rightarrow> state" where
  "handleUserActivity e bypassSuppression s =
     (if \<not> bypassSuppression \<and> isIgnoringActivity e s then s
      else if currentPanel s \<noteq> None then stopScreensaver e s
      else restartIdleTimer e s)"

text \<open>The callback given to \<^verbatim>\<open>setTimeout\<close> in \<^verbatim>\<open>restartIdleTimer\<close>.\<close>

definition idleTimerCallback :: "env \<Rightarrow> state \<Rightarrow> state \<times> error option" where
  "idleTimerCallback e s =
     (let s1 = s\<lparr>idleTimer := None\<rparr>
      in if \<not> truthy (getAutoStartEnabled e) then (s1, None)
         else if \<not> focused e then (s1, None)
         else if currentPanel s1 \<noteq> None then (s1, None)
         else show e (getConfiguredMode e)
                (setIgnoreActivityFor e INTERNAL_ACTIVITY_IGNORE_MS s1))"

text \<open>The listener registered with \<^verbatim>\<open>currentPanel.webview.onDidReceiveMessage\<close>.\<close>

definition onDidReceiveMessage :: "env \<Rightarrow> jsval \<Rightarrow> state \<Rightarrow> state \<times> error option" where
  "onDidReceiveMessage e message s =
     (if \<not> truthy message \<or> typeof message \<noteq> ''object'' then (s, None)
      else case get_type message of
             Inl err \<Rightarrow> (s, Some err)
           | Inr type \<Rightarrow>
               if type = JStr WEBVIEW_ACTIVITY_MESSAGE_TYPE
               then (handleUserActivity e True s, None)
               else (s, None))"

text \<open>The handler of the command \<^verbatim>\<open>otak-screensaver.toggleScreenSaver\<close>.\<close>

definition toggleScreenSaver :: "env \<Rightarrow> state \<Rightarrow> state \<times> error option" where
  "toggleScreenSaver e s =
     (if currentPanel s \<noteq> None then (stopScreensaver e s, None)
      else show e (getConfiguredMode e) s)"

subsection \<open>The keep-alive heartbeat\<close>

text \<open>
  The async function \<^verbatim>\<open>heartbeat\<close> runs to its first await when it is called:
  it returns at once when the flag is set, and otherwise sets the flag and
  suspends in \<^verbatim>\<open>sendCodespacesKeepAliveHeartbeat\<close> at the first of its three
  awaits.
\<close>

definition heartbeat :: "state \<Rightarrow> state" where
  "heartbeat s =
     (if sendingCodespacesKeepAlive s then s
      else s\<lparr>sendingCodespacesKeepAlive := True, heartbeats := heartbeats s @ [CreateDirectory]\<rparr>)"

text \<open>
  The await of the \<open>i\<close>-th suspended call settles. When it resolves the call
  moves to its next await; after the last one, or when an await rejects (the
  \<^verbatim>\<open>catch\<close> logs a warning), the call is over and \<^verbatim>\<open>finally\<close> clears the flag.
\<close>

definition heartbeat_finished :: "nat \<Rightarrow> state \<Rightarrow> state" where
  "heartbeat_finished i s =
     s\<lparr>heartbeats := take i (heartbeats s) @ drop (Suc i) (heartbeats s),
       sendingCodespacesKeepAlive := False\<rparr>"

definition heartbeat_settled :: "nat \<Rightarrow> bool \<Rightarrow> state \<Rightarrow> state" where
  "heartbeat_settled i resolved s =
     (if i < length (heartbeats s) then
        (if resolved then
           (case heartbeats s ! i of
              CreateDirectory \<Rightarrow> s\<lparr>heartbeats := (heartbeats s)[i := Stat]\<rparr>
            | Stat \<Rightarrow> s\<lparr>heartbeats := (heartbeats s)[i := SetContext]\<rparr>
            | SetContext \<Rightarrow> heartbeat_finished i s)
         else heartbeat_finished i s)
      else s)"

definition restartCodespacesKeepAlive :: "env \<Rightarrow> state \<Rightarrow> state" where
  "restartCodespacesKeepAlive e s =
     (let s1 = (case codespacesKeepAliveTimer s of
                  Some h \<Rightarrow> (clearInterval h s)\<lparr>codespacesKeepAliveTimer := None\<rparr>
                | None \<Rightarrow> s)
      in if \<not> isCodespacesEnvironment e then s1
         else if \<not> truthy (getCodespacesKeepAliveEnabled e) then s1
         else (let s2 = heartbeat s1;
                   (h, s3) = setInterval (getCodespacesKeepAliveIntervalMs e) s2
               in s3\<lparr>codespacesKeepAliveTimer := Some h\<rparr>))"

subsection \<open>Teardown\<close>

text \<open>
  The \<^verbatim>\<open>vscode.Disposable\<close> pushed to \<^verbatim>\<open>context.subscriptions\<close>. Disposing the
  subscription set runs it and detaches every listener and command that was
  registered with the set.
\<close>

definition teardown :: "state \<Rightarrow> state" where
  "teardown s =
     (let s1 = (case idleTimer s of
                  Some h \<Rightarrow> (clearTimeout h s)\<lparr>idleTimer := None\<rparr>
                | None \<Rightarrow> s);
          s2 = (case codespacesKeepAliveTimer s1 of
                  Some h \<Rightarrow> (clearInterval h s1)\<lparr>codespacesKeepAliveTimer := None\<rparr>
                | None \<Rightarrow> s1)
      in s2)"

definition dispose_subscriptions :: "state \<Rightarrow> state" where
  "dispose_subscriptions s = (if disposed s then s else (teardown s)\<lparr>disposed := True\<rparr>)"

section \<open>Settings migration\<close>

text \<open>
  The persisted side of the host: the values of \<^verbatim>\<open>otakScreensaver\<close> settings
  in the user settings, the workspace settings and the settings of a workspace
  folder; the targets that cannot be written at the moment (no workspace is
  open, a settings file cannot be saved); the number stored under
  \<^verbatim>\<open>settingsMigrationVersion\<close> in the extension's global state (absent until
  the extension writes it); and the log of the writes done through
  \<^verbatim>\<open>config.update\<close>.
\<close>

datatype ConfigurationTarget = Global | Workspace | WorkspaceFolder

record storage =
  globalValues :: "string \<rightharpoonup> jsval"
  workspaceValues :: "string \<rightharpoonup> jsval"
  workspaceFolderValues :: "string \<rightharpoonup> jsval"
  unwritable :: "ConfigurationTarget list"
  settingsMigrationVersion :: "real option"
  configWrites :: "(ConfigurationTarget \<times> string \<times> jsval) list"

record inspected =
  workspaceFolderValue :: jsval
  workspaceValue :: jsval
  globalValue :: jsval

definition scope_value :: "(string \<rightharpoonup> jsval) \<Rightarrow> string \<Rightarrow> jsval" where
  "scope_value m key = (case m key of None \<Rightarrow> JUndefined | Some v \<Rightarrow> v)"

text \<open>
  \<^verbatim>\<open>migrateSettings\<close> obtains its configuration object by
  \<^verbatim>\<open>getConfiguration('otakScreensaver')\<close>, without a resource. For such an
  object \<^verbatim>\<open>inspect\<close> answers with the user and the workspace value of the key
  and reports no workspace-folder value, whatever the folder settings hold.
\<close>

definition inspect :: "storage \<Rightarrow> string \<Rightarrow> inspected option" where
  "inspect st key =
     Some \<lparr>workspaceFolderValue = JUndefined,
           workspaceValue = scope_value (workspaceValues st) key,
           globalValue = scope_value (globalValues st) key\<rparr>"

text \<open>
  \<^verbatim>\<open>config.update(key, value, target)\<close> on that object: the host rejects a write
  to the workspace-folder target of a configuration that was obtained without
  a resource, and a write to a target that cannot be written. Otherwise the
  value is stored in the scope of the target; an undefined value removes the
  key.
\<close>

definition store :: "string \<Rightarrow> jsval \<Rightarrow> (string \<rightharpoonup> jsval) \<Rightarrow> (string \<rightharpoonup> jsval)" where
  "store key v m = (if v = JUndefined then m(key := None) else m(key \<mapsto> v))"

definition config_update ::
  "string \<Rightarrow> jsval \<Rightarrow> ConfigurationTarget \<Rightarrow> storage \<Rightarrow> error + storage" where
  "config_update key v target st =
     (if target = WorkspaceFolder \<or> target \<in> set (unwritable st) then Inl ConfigurationWriteError
      else (let st1 = st\<lparr>configWrites := configWrites st @ [(target, key, v)]\<rparr>
            in case target of
                 Global \<Rightarrow> Inr (st1\<lparr>globalValues := store key v (globalValues st1)\<rparr>)
               | Workspace \<Rightarrow> Inr (st1\<lparr>workspaceValues := store key v (workspaceValues st1)\<rparr>)
               | WorkspaceFolder \<Rightarrow>
                   Inr (st1\<lparr>workspaceFolderValues := store key v (workspaceFolderValues st1)\<rparr>)))"

text \<open>
  The loop over the targets: the first write that is rejected ends it, with the
  writes before it done. The result is the storage and the exception, if any.
\<close>

fun update_all ::
  "string \<Rightarrow> jsval \<Rightarrow> ConfigurationTarget list \<Rightarrow> storage \<Rightarrow> storage \<times> error option" where
  "update_all key v [] st = (st, None)"
| "update_all key v (target # targets) st =
     (case config_update key v target st of
        Inl err \<Rightarrow> (st, Some err)
      | Inr st1 \<Rightarrow> update_all key v targets st1)"

definition overwriteSetting :: "string \<Rightarrow> jsval \<Rightarrow> storage \<Rightarrow> storage \<times> error option" where
  "overwriteSetting key v st =
     (case inspect st key of
        None \<Rightarrow> (st, None)
      | Some i \<Rightarrow>
          (let t0 = [];
               t1 = (if workspaceFolderValue i \<noteq> JUndefined then t0 @ [WorkspaceFolder] else t0);
               t2 = (if workspaceValue i \<noteq> JUndefined then t1 @ [Workspace] else t1);
               t3 = (if globalValue i \<noteq> JUndefined then t2 @ [Global] else t2);
               targets = (if length t3 = 0 then t3 @ [Global] else t3)
           in update_all key v targets st))"

text \<open>
  When \<^verbatim>\<open>overwriteSetting\<close> throws, the version is not stored and the exception
  goes on to the caller.
\<close>

definition migrateSettings :: "storage \<Rightarrow> storage \<times> error option" where
  "migrateSettings st =
     (let current = (case settingsMigrationVersion st of None \<Rightarrow> 0 | Some n \<Rightarrow> n)
      in if current \<ge> SETTINGS_MIGRATION_VERSION then (st, None)
         else (case overwriteSetting ''autoStart'' (JBool True) st of
                 (st1, Some err) \<Rightarrow> (st1, Some err)
               | (st1, None) \<Rightarrow>
                   (st1\<lparr>settingsMigrationVersion := Some SETTINGS_MIGRATION_VERSION\<rparr>, None)))"

section \<open>Activation and the event loop\<close>

definition initial_state :: state where
  "initial_state =
     \<lparr>currentPanel = None, idleTimer = None, codespacesKeepAliveTimer = None,
      ignoreActivityUntil = 0, sendingCodespacesKeepAlive = False,
      timeouts = [], intervals = [], openPanels = [], heartbeats = [],
      nextHandle = 0, disposed = False\<rparr>"

text \<open>
  What \<^verbatim>\<open>activate\<close> does after the migration: the closure variables start
  undefined, zero and false, and the last two lines arm the idle timer and
  start the keep-alive (the status bar item and its tooltip hold no controller
  state and are left out).
\<close>

definition controller_start :: "env \<Rightarrow> state" where
  "controller_start e = restartCodespacesKeepAlive e (restartIdleTimer e initial_state)"

text \<open>
  \<^verbatim>\<open>activate\<close> awaits the migration first. When the migration throws,
  activation fails with that exception and no controller exists; otherwise the
  controller starts. \<open>e\<close> is the environment that the part after the
  migration observes.
\<close>

definition activate :: "env \<Rightarrow> storage \<Rightarrow> storage \<times> (error + state)" where
  "activate e st =
     (case migrateSettings st of
        (st1, Some err) \<Rightarrow> (st1, Inl err)
      | (st1, None) \<Rightarrow> (st1, Inr (controller_start e)))"

text \<open>
  The callbacks that the host runs after activation, one at a time: an
  activity signal of the editor or window, a message of the webview of the
  current panel, the user closing the current panel, a pending timeout or
  interval firing, an await of a suspended heartbeat settling, a configuration
  change (with the answer of \<^verbatim>\<open>affectsConfiguration\<close>), the commands, and the
  disposal of the subscription set. Listeners and commands registered with
  the subscription set are detached once it is disposed; the dispose listener
  of the panel is not registered with it. An exception of a callback goes to
  the host and the state stays as the callback left it.
\<close>

datatype event =
    Activity
  | Message jsval
  | PanelClosed
  | TimeoutFired nat
  | IntervalFired nat
  | AwaitSettled nat bool
  | ConfigurationChanged bool
  | ToggleCommand
  | ShowCommand ScreenSaverId
  | DisposeSubscriptions

definition step :: "env \<Rightarrow> event \<Rightarrow> state \<Rightarrow> state" where
  "step e ev s =
     (case ev of
        Activity \<Rightarrow> if disposed s then s else handleUserActivity e False s
      | Message m \<Rightarrow>
          if disposed s \<or> currentPanel s = None then s else fst (onDidReceiveMessage e m s)
      | PanelClosed \<Rightarrow> (case currentPanel s of None \<Rightarrow> s | Some p \<Rightarrow> panel_dispose e p s)
      | TimeoutFired h \<Rightarrow>
          if h \<in> set (map fst (timeouts s)) then fst (idleTimerCallback e (clearTimeout h s))
          else s
      | IntervalFired h \<Rightarrow> if h \<in> set (map fst (intervals s)) then heartbeat s else s
      | AwaitSettled i resolved \<Rightarrow> heartbeat_settled i resolved s
      | ConfigurationChanged affects \<Rightarrow>
          if disposed s then s
          else if affects then restartCodespacesKeepAlive e (restartIdleTimer e s)
          else s
      | ToggleCommand \<Rightarrow> if disposed s then s else fst (toggleScreenSaver e s)
      | ShowCommand i \<Rightarrow> if disposed s then s else fst (show e (Concrete i) s)
      | DisposeSubscriptions \<Rightarrow> dispose_subscriptions s)"

fun run :: "(env \<times> event) list \<Rightarrow> state \<Rightarrow> state" where
  "run [] s = s"
| "run ((e, ev) # rest) s = run rest (step e ev s)"

text \<open>
  The three conditions under which the idle timer is armed and under which its
  callback opens the panel.
\<close>

definition eligible :: "env \<Rightarrow> state \<Rightarrow> bool" where
  "eligible e s \<longleftrightarrow> truthy (getAutoStartEnabled e) \<and> focused e \<and> currentPanel s = None"

text \<open>
  What the inbound message contract calls an activity message: an object whose
  \<open>type\<close> field is the fixed activity tag.
\<close>

fun is_activity_message :: "jsval \<Rightarrow> bool" where
  "is_activity_message (JObj fs) =
     (map_of fs ''type'' = Some (JStr ''otakScreensaver.userActivity''))"
| "is_activity_message v = False"

section \<open>Invariants of the controller\<close>

text \<open>
  At most one heartbeat call is suspended, and the in-flight flag is set
  exactly while one is.
\<close>

definition heartbeat_inv :: "state \<Rightarrow> bool" where
  "heartbeat_inv s \<longleftrightarrow>
     length (heartbeats s) \<le> 1 \<and> (sendingCodespacesKeepAlive s \<longleftrightarrow> heartbeats s \<noteq> [])"

text \<open>
  The host holds no timeout and no interval of the extension besides the ones
  whose handles the controller keeps.
\<close>

definition timers_tracked :: "state \<Rightarrow> bool" where
  "timers_tracked s \<longleftrightarrow>
     map fst (timeouts s) = (case idleTimer s of None \<Rightarrow> [] | Some h \<Rightarrow> [h]) \<and>
     map fst (intervals s) = (case codespacesKeepAliveTimer s of None \<Rightarrow> [] | Some h \<Rightarrow> [h])"

text \<open>The handle of the idle timer was handed out before the next one to come.\<close>

definition handle_fresh :: "state \<Rightarrow> bool" where
  "handle_fresh s \<longleftrightarrow> (\<forall>h. idleTimer s = Some h \<longrightarrow> h < nextHandle s)"

section \<open>Concrete inputs\<close>

text \<open>
  An environment with the given settings, the window focused, the clock at
  1000 ms, \<^verbatim>\<open>Math.random()\<close> giving one half and every asset readable (the
  document produced for an asset stands for its file name).
\<close>

definition env_of :: "(string \<times> jsval) list \<Rightarrow> env" where
  "env_of cfg =
     \<lparr>config = map_of cfg, focused = True, now = 1000,
      random_mantissa = 2 ^ 52, random_scale = 53,
      process_env = Map.empty, webviewHtml = (\<lambda>f b. Some f)\<rparr>"

text \<open>The same with the window not focused.\<close>

definition env_unfocused :: env where
  "env_unfocused = (env_of [])\<lparr>focused := False\<rparr>"

text \<open>A Codespaces environment with default settings.\<close>

definition env_codespaces :: env where
  "env_codespaces = (env_of [])\<lparr>process_env := [''CODESPACES'' \<mapsto> ''TRUE'']\<rparr>"

text \<open>The controller after activation with default settings: the idle timer is armed.\<close>

definition armed_state :: state where
  "armed_state = restartIdleTimer (env_of []) initial_state"

text \<open>The controller after the command that shows Beziers.\<close>

definition shown_state :: state where
  "shown_state = fst (show (env_of []) (Concrete Beziers) armed_state)"

text \<open>Persisted settings given per scope, with the stored migration version.\<close>

definition storage_of ::
  "(string \<times> jsval) list \<Rightarrow> (string \<times> jsval) list \<Rightarrow> (string \<times> jsval) list
     \<Rightarrow> real option \<Rightarrow> storage" where
  "storage_of g w f v =
     \<lparr>globalValues = map_of g, workspaceValues = map_of w, workspaceFolderValues = map_of f,
      unwritable = [], settingsMigrationVersion = v, configWrites = []\<rparr>"


text \<open>The controller after activation in a Codespace: the first heartbeat is in flight.\<close>

definition codespaces_state :: state where
  "codespaces_state = controller_start env_codespaces"

text \<open>The same after two awaits of that heartbeat resolved.\<close>

definition last_await_state :: state where
  "last_await_state =
     run [(env_codespaces, AwaitSettled 0 True), (env_codespaces, AwaitSettled 0 True)]
       codespaces_state"

section \<open>Properties of the operations\<close>

subsection \<open>Rounding to a double\<close>

lemma pow2_powr: "pow2 k = 2 powr (real_of_int k)"
  by (simp add: pow2_def powr_int)

lemma pow2_pos [simp]: "0 < pow2 k"
  by (simp add: pow2_def)

lemma pow2_neg: "pow2 (- int j) = 1 / 2 ^ j"
  by (cases j) (simp_all add: pow2_def nat_add_distrib)

lemma ilog2_floor_log:
  assumes "0 < x" shows "ilog2 x = \<lfloor>log 2 x\<rfloor>"
proof (cases "1 \<le> x")
  case True
  define n where "n = nat \<lfloor>x\<rfloor>"
  have n0: "0 < n" using True by (simp add: n_def)
  have n1: "real n \<le> x" using True by (simp add: n_def)
  have n2: "x < real n + 1" using True by (simp add: n_def; linarith?)
  define k where "k = floorlog 2 n - 1"
  have fl: "floorlog 2 n = k + 1" using n0 by (simp add: k_def floorlog_def)
  have b: "2 ^ k \<le> n" "n < 2 ^ (k + 1)"
    using floorlog_bounds [of n 2] n0 by (simp_all add: fl)
  have "(2::real) ^ k \<le> real n" using of_nat_mono [OF b(1), where ?'a = real] by simp
  then have lo: "2 ^ k \<le> x" using n1 by linarith
  have "n + 1 \<le> 2 ^ (k + 1)" using b(2) by simp
  then have "real n + 1 \<le> 2 ^ (k + 1)" using of_nat_mono [where ?'a = real] by fastforce
  then have hi: "x < 2 ^ (k + 1)" using n2 by linarith
  have q1: "2 powr (real_of_int (int k)) = 2 ^ k"
    using powr_realpow [of 2 k] by simp
  have q2: "2 powr (real_of_int (int k + 1)) = 2 ^ (k + 1)"
    using powr_realpow [of 2 "k + 1"] by (simp add: add.commute)
  have "\<lfloor>log 2 x\<rfloor> = int k"
    using assms lo hi floor_log_eq_powr_iff [of x 2 "int k"] by (simp only: q1 q2; simp?)
  moreover have "ilog2 x = int k" using True by (simp add: ilog2_def n_def [symmetric] fl)
  ultimately show ?thesis by simp
next
  case False
  then have x1: "x < 1" by simp
  define c where "c = nat \<lceil>1 / x\<rceil>"
  have y: "1 < 1 / x" using assms x1 by simp
  have c0: "2 \<le> c" using y by (simp add: c_def; linarith?)
  have c1: "1 / x \<le> real c" using y by (simp add: c_def; linarith?)
  have c2: "real c < 1 / x + 1" using y by (simp add: c_def; linarith?)
  define m where "m = c - 1"
  have m0: "0 < m" and mc: "real c = real m + 1" using c0 by (simp_all add: m_def)
  define k where "k = floorlog 2 m - 1"
  have fl: "floorlog 2 m = k + 1" using m0 by (simp add: k_def floorlog_def)
  have b: "2 ^ k \<le> m" "m < 2 ^ (k + 1)"
    using floorlog_bounds [of m 2] m0 by (simp_all add: fl)
  have "(2::real) ^ k \<le> real m" using of_nat_mono [OF b(1), where ?'a = real] by simp
  then have b1: "(2::real) ^ k \<le> real c - 1" by (simp add: mc)
  have "m + 1 \<le> 2 ^ (k + 1)" using b(2) by simp
  then have "real m + 1 \<le> 2 ^ (k + 1)" using of_nat_mono [where ?'a = real] by fastforce
  then have b2: "real c \<le> 2 ^ (k + 1)" by (simp add: mc)
  have "2 ^ k < 1 / x" using b1 c2 by simp
  then have u: "x < 1 / 2 ^ k" using assms by (simp add: field_simps)
  have "1 / x \<le> 2 ^ (k + 1)" using b2 c1 by simp
  then have l: "1 / 2 ^ (k + 1) \<le> x" using assms by (simp add: field_simps)
  have p1: "2 powr (real_of_int (- int (k + 1))) = 1 / 2 ^ (k + 1)"
    using powr_int [of 2 "- int (k + 1)"] by (simp add: nat_add_distrib)
  have p2: "2 powr (real_of_int (- int (k + 1) + 1)) = 1 / 2 ^ k"
    using powr_int [of 2 "- int k"] by (cases k) (simp_all add: nat_add_distrib)
  have "\<lfloor>log 2 x\<rfloor> = - int (k + 1)"
    using assms l u floor_log_eq_powr_iff [of x 2 "- int (k + 1)"] by (simp only: p1 p2; simp?)
  moreover have "ilog2 x = - int (floorlog 2 m)"
    using False unfolding ilog2_def m_def c_def by simp
  then have "ilog2 x = - int (k + 1)" by (simp only: fl)
  ultimately show ?thesis by simp
qed

lemma ilog2_eq:
  assumes "pow2 k \<le> x" "x < pow2 (k + 1)" shows "ilog2 x = k"
proof -
  have "0 < x" using assms(1) pow2_pos [of k] by linarith
  then show ?thesis
    using assms by (simp add: ilog2_floor_log floor_log_eq_powr_iff pow2_powr)
qed

lemma ilog2_le:
  assumes "0 < x" "x < pow2 (k + 1)" shows "ilog2 x \<le> k"
proof -
  have "log 2 x < real_of_int (k + 1)"
    using assms by (simp add: pow2_powr log_less_iff del: of_int_add)
  then have "\<lfloor>log 2 x\<rfloor> < k + 1" by (simp only: floor_less_iff)
  then show ?thesis using assms(1) by (simp add: ilog2_floor_log)
qed

lemma ilog2_ge:
  assumes "pow2 k \<le> x" shows "k \<le> ilog2 x"
proof -
  have x: "0 < x" using assms pow2_pos [of k] by linarith
  then have "real_of_int k \<le> log 2 x"
    using assms by (simp add: pow2_powr le_log_iff)
  then have "k \<le> \<lfloor>log 2 x\<rfloor>" by (simp only: le_floor_iff)
  then show ?thesis using x by (simp add: ilog2_floor_log)
qed

lemma round_half_even_of_int [simp]: "round_half_even (of_int k) = k"
  by (simp add: round_half_even_def)

lemma round_half_even_ge: "of_int k \<le> t \<Longrightarrow> k \<le> round_half_even t"
proof -
  assume "of_int k \<le> t"
  then have "k \<le> \<lfloor>t\<rfloor>" by (simp add: le_floor_iff)
  then show ?thesis by (simp add: round_half_even_def Let_def)
qed

lemma round_half_even_le: "t \<le> of_int k \<Longrightarrow> round_half_even t \<le> k"
proof -
  assume a: "t \<le> of_int k"
  then have f: "\<lfloor>t\<rfloor> \<le> k" by (simp add: floor_le_iff)
  show ?thesis
  proof (cases "\<lfloor>t\<rfloor> = k")
    case True
    then have "t - of_int \<lfloor>t\<rfloor> \<le> 0" using a by simp
    then show ?thesis using True by (simp add: round_half_even_def Let_def)
  next
    case False
    with f have "\<lfloor>t\<rfloor> + 1 \<le> k" by simp
    then show ?thesis by (simp add: round_half_even_def Let_def)
  qed
qed

lemma round_half_even_less_even:
  assumes "even k" shows "round_half_even t < k \<longleftrightarrow> t < of_int k - 1 / 2"
proof
  assume r: "round_half_even t < k"
  show "t < of_int k - 1 / 2"
  proof (rule ccontr)
    assume "\<not> t < of_int k - 1 / 2"
    then have t: "of_int k - 1 / 2 \<le> t" by simp
    then have "of_int (k - 1) \<le> t" by simp
    then have f: "k - 1 \<le> \<lfloor>t\<rfloor>" by (simp only: le_floor_iff)
    show False
    proof (cases "\<lfloor>t\<rfloor> = k - 1")
      case True
      then have d: "1 / 2 \<le> t - of_int \<lfloor>t\<rfloor>" using t by simp
      have "odd \<lfloor>t\<rfloor>" using True assms by simp
      with d True have "round_half_even t = k"
        by (auto simp: round_half_even_def Let_def)
      with r show False by simp
    next
      case False
      with f have "k \<le> \<lfloor>t\<rfloor>" by simp
      then have "k \<le> round_half_even t" by (simp add: round_half_even_def Let_def)
      with r show False by simp
    qed
  qed
next
  assume t: "t < of_int k - 1 / 2"
  then have "t < of_int k" by simp
  then have f: "\<lfloor>t\<rfloor> \<le> k - 1" by (simp add: floor_less_iff [symmetric])
  show "round_half_even t < k"
  proof (cases "\<lfloor>t\<rfloor> = k - 1")
    case True
    then have "t - of_int \<lfloor>t\<rfloor> < 1 / 2" using t by simp
    then show ?thesis using True by (simp add: round_half_even_def Let_def)
  next
    case False
    with f have "\<lfloor>t\<rfloor> + 1 < k" by simp
    then show ?thesis by (simp add: round_half_even_def Let_def)
  qed
qed

lemma overflow_small:
  assumes "\<bar>y\<bar> \<le> 2 ^ 53" shows "overflow y = Fin y"
proof -
  have "(2::real) ^ 53 < 2 ^ 1024" by (rule power_strict_increasing) simp_all
  with assms have "\<not> 2 ^ 1024 \<le> y" "\<not> y \<le> - (2 ^ 1024)" by linarith+
  then show ?thesis by (simp only: overflow_def if_False)
qed

lemma double_of_real_grid:
  assumes "x \<noteq> 0" "ulp_exponent x = - int j"
  shows "double_of_real x = overflow (of_int (round_half_even (x * 2 ^ j)) / 2 ^ j)"
  using assms by (simp add: double_of_real_def pow2_neg)

text \<open>A whole number below \<^verbatim>\<open>2^53\<close> in size is a double.\<close>

lemma double_of_int:
  assumes "\<bar>n\<bar> < 2 ^ 53" shows "double_of_real (of_int n) = Fin (of_int n)"
proof (cases "n = 0")
  case True
  then show ?thesis by (simp add: double_of_real_def)
next
  case False
  let ?x = "real_of_int n"
  have a: "1 \<le> \<bar>?x\<bar>" using False by (simp flip: of_int_abs)
  have "real_of_int \<bar>n\<bar> < real_of_int (2 ^ 53)" using assms by (simp only: of_int_less_iff)
  then have b: "\<bar>?x\<bar> < 2 ^ 53" by simp
  have "0 \<le> ilog2 \<bar>?x\<bar>" using a by (intro ilog2_ge) (simp add: pow2_def)
  moreover have "ilog2 \<bar>?x\<bar> \<le> 52" using a b by (intro ilog2_le) (simp_all add: pow2_def)
  ultimately have "ulp_exponent ?x = - int (nat (52 - ilog2 \<bar>?x\<bar>))"
    by (simp add: ulp_exponent_def)
  then obtain j where j: "ulp_exponent ?x = - int j" ..
  have x0: "?x \<noteq> 0" using False by simp
  have "real_of_int n * 2 ^ j = of_int (n * 2 ^ j)" by simp
  then have "round_half_even (real_of_int n * 2 ^ j) = n * 2 ^ j"
    by (simp only: round_half_even_of_int)
  then have "double_of_real ?x = overflow ?x"
    by (simp add: double_of_real_grid [OF x0 j])
  then show ?thesis using b by (simp add: overflow_small)
qed

lemma div_pow2_le:
  fixes a :: real assumes "0 \<le> a" shows "a / 2 ^ j \<le> a"
proof -
  have "a / 2 ^ j \<le> a / 1" by (rule divide_left_mono) (use assms in simp_all)
  then show ?thesis by simp
qed

lemma ulp_exponent_binade:
  assumes "pow2 (52 - int j) \<le> x" "x < pow2 (53 - int j)" "j \<le> 1074"
  shows "ulp_exponent x = - int j"
proof -
  have "0 < x" using assms(1) pow2_pos [of "52 - int j"] by linarith
  moreover have "ilog2 x = 52 - int j"
    using assms(1,2) by (intro ilog2_eq) (simp_all add: algebra_simps)
  ultimately show ?thesis using assms(3) by (simp add: ulp_exponent_def)
qed

lemma double_binade:
  assumes "pow2 (52 - int j) \<le> x" "x < pow2 (53 - int j)" "j \<le> 1074"
  shows "double_of_real x = Fin (of_int (round_half_even (x * 2 ^ j)) / 2 ^ j)"
    and "2 ^ 52 \<le> round_half_even (x * 2 ^ j)" and "round_half_even (x * 2 ^ j) \<le> 2 ^ 53"
proof -
  have x0: "x \<noteq> 0" using assms(1) pow2_pos [of "52 - int j"] by linarith
  have p: "pow2 (52 - int j) = 2 ^ 52 / 2 ^ j" "pow2 (53 - int j) = 2 ^ 53 / 2 ^ j"
    using pow2_powr [of "52 - int j"] pow2_powr [of "53 - int j"] powr_realpow [of 2 j]
    by (simp_all add: powr_diff)
  have lo: "of_int (2 ^ 52) \<le> x * 2 ^ j" using assms(1) by (simp add: p field_simps)
  have hi: "x * 2 ^ j \<le> of_int (2 ^ 53)" using assms(2) by (simp add: p field_simps)
  show r1: "2 ^ 52 \<le> round_half_even (x * 2 ^ j)" using lo by (rule round_half_even_ge)
  show r2: "round_half_even (x * 2 ^ j) \<le> 2 ^ 53" using hi by (rule round_half_even_le)
  let ?y = "real_of_int (round_half_even (x * 2 ^ j)) / 2 ^ j"
  have n0: "0 \<le> real_of_int (round_half_even (x * 2 ^ j))" using r1 by simp
  have "real_of_int (round_half_even (x * 2 ^ j)) \<le> real_of_int (2 ^ 53)"
    using r2 by (simp only: of_int_le_iff)
  then have n1: "real_of_int (round_half_even (x * 2 ^ j)) \<le> 2 ^ 53" by simp
  have "0 \<le> ?y" "?y \<le> 2 ^ 53" using n0 n1 div_pow2_le [OF n0, of j] by simp_all
  then have "\<bar>?y\<bar> \<le> 2 ^ 53" by simp
  then show "double_of_real x = Fin ?y"
    by (simp add: double_of_real_grid [OF x0 ulp_exponent_binade [OF assms]] overflow_small)
qed

lemma double_below_half:
  assumes "0 < x" "x < 1 / 2"
  shows "\<exists>y. double_of_real x = Fin y \<and> 0 \<le> y \<and> y \<le> 1 / 2"
proof -
  have "ilog2 x \<le> - 2" using assms by (intro ilog2_le) (simp_all add: pow2_def)
  then have "ulp_exponent x \<le> - 54" using assms(1) by (simp add: ulp_exponent_def)
  then have "ulp_exponent x = - int (nat (- ulp_exponent x))" "54 \<le> nat (- ulp_exponent x)"
    by simp_all
  then obtain j where j: "ulp_exponent x = - int j" "54 \<le> j" by blast
  then obtain i where i: "j = Suc i" by (cases j) simp_all
  let ?r = "round_half_even (x * 2 ^ j)"
  have "of_int 0 \<le> x * 2 ^ j" using assms(1) by simp
  then have r0: "0 \<le> ?r" by (rule round_half_even_ge)
  have "x * 2 ^ j \<le> of_int (2 ^ i)" using assms(2) by (simp add: i)
  then have r1: "?r \<le> 2 ^ i" by (rule round_half_even_le)
  then have "real_of_int ?r \<le> real_of_int (2 ^ i)" by (simp only: of_int_le_iff)
  then have r1': "real_of_int ?r \<le> 2 ^ i" by simp
  let ?y = "real_of_int ?r / 2 ^ j"
  have y0: "0 \<le> ?y" using r0 by simp
  have y1: "?y \<le> 1 / 2" using r1' by (simp add: i field_simps)
  have "(1::real) \<le> 2 ^ 53" by simp
  then have "\<bar>?y\<bar> \<le> 2 ^ 53" using y0 y1 by linarith
  then have o: "overflow ?y = Fin ?y" by (rule overflow_small)
  have "x \<noteq> 0" using assms(1) by simp
  from double_of_real_grid [OF this j(1)] o have "double_of_real x = Fin ?y"
    by (rule trans)
  with y0 y1 show ?thesis by blast
qed

lemma floor_div_pow2:
  assumes "k * 2 ^ j \<le> r" "r < (k + 1) * 2 ^ j"
  shows "\<lfloor>real_of_int r / 2 ^ j\<rfloor> = k"
proof (rule floor_unique)
  have "real_of_int (k * 2 ^ j) \<le> real_of_int r" using assms(1) by (simp only: of_int_le_iff)
  then show "of_int k \<le> real_of_int r / 2 ^ j" by (simp add: field_simps)
  have "real_of_int r < real_of_int ((k + 1) * 2 ^ j)" using assms(2) by (simp only: of_int_less_iff)
  then show "real_of_int r / 2 ^ j < of_int k + 1" by (simp add: field_simps)
qed

text \<open>
  The floor of the double nearest to a number from 0 to \<^verbatim>\<open>3 - 3 * 2^-53\<close>:
  the number rounds up to 1 from \<^verbatim>\<open>1 - 2^-54\<close> on and up to 2 from
  \<^verbatim>\<open>2 - 2^-53\<close> on, and it does not round up to 3.
\<close>

lemma double_floor_three:
  assumes "0 \<le> x" "x \<le> 3 - 3 / 2 ^ 53"
  shows "js_floor (double_of_real x) =
           Some (if x < 1 - 1 / 2 ^ 54 then 0 else if x < 2 - 1 / 2 ^ 53 then 1 else 2)"
proof -
  consider "x = 0" | "0 < x" "x < 1 / 2" | "1 / 2 \<le> x" "x < 1" | "1 \<le> x" "x < 2" | "2 \<le> x"
    using assms(1) by linarith
  then show ?thesis
  proof cases
    case 1
    then show ?thesis by (simp add: double_of_real_def js_floor_def)
  next
    case 2
    from double_below_half [OF 2] obtain y where
      y: "double_of_real x = Fin y" "0 \<le> y" "y \<le> 1 / 2" by blast
    then have "\<lfloor>y\<rfloor> = 0" by (simp add: floor_eq_iff)
    moreover have "x < 1 - 1 / 2 ^ 54" using 2(2) by simp
    ultimately show ?thesis using y(1) by (simp add: js_floor_def)
  next
    case 3
    let ?r = "round_half_even (x * 2 ^ 53)"
    have b: "pow2 (52 - int 53) \<le> x" "x < pow2 (53 - int 53)"
      using 3 by (simp_all add: pow2_def)
    note d = double_binade [OF b, simplified]
    have e: "?r < 2 ^ 53 \<longleftrightarrow> x < 1 - 1 / 2 ^ 54"
      using round_half_even_less_even [of "2 ^ 53" "x * 2 ^ 53"] by (simp add: algebra_simps)
    show ?thesis
    proof (cases "x < 1 - 1 / 2 ^ 54")
      case True
      with e have "?r < 2 ^ 53" by simp
      with d(2) have "\<lfloor>real_of_int ?r / 2 ^ 53\<rfloor> = 0" by (intro floor_div_pow2) simp_all
      with True show ?thesis by (simp add: js_floor_def d(1))
    next
      case False
      with e d(3) have "?r = 2 ^ 53" by simp
      then have "\<lfloor>real_of_int ?r / 2 ^ 53\<rfloor> = 1" by simp
      moreover have "x < 2 - 1 / 2 ^ 53" using 3(2) by simp
      ultimately show ?thesis using False by (simp add: js_floor_def d(1))
    qed
  next
    case 4
    let ?r = "round_half_even (x * 2 ^ 52)"
    have b: "pow2 (52 - int 52) \<le> x" "x < pow2 (53 - int 52)"
      using 4 by (simp_all add: pow2_def)
    note d = double_binade [OF b, simplified]
    have e: "?r < 2 ^ 53 \<longleftrightarrow> x < 2 - 1 / 2 ^ 53"
      using round_half_even_less_even [of "2 ^ 53" "x * 2 ^ 52"] by (simp add: algebra_simps)
    have n: "\<not> x < 1 - 1 / 2 ^ 54" using 4(1) by simp
    show ?thesis
    proof (cases "x < 2 - 1 / 2 ^ 53")
      case True
      with e have "?r < 2 ^ 53" by simp
      with d(2) have "\<lfloor>real_of_int ?r / 2 ^ 52\<rfloor> = 1" by (intro floor_div_pow2) simp_all
      with True n show ?thesis by (simp add: js_floor_def d(1))
    next
      case False
      with e d(3) have "?r = 2 ^ 53" by simp
      then have "\<lfloor>real_of_int ?r / 2 ^ 52\<rfloor> = 2" by simp
      with False n show ?thesis by (simp add: js_floor_def d(1))
    qed
  next
    case 5
    let ?r = "round_half_even (x * 2 ^ 51)"
    have b: "pow2 (52 - int 51) \<le> x" "x < pow2 (53 - int 51)"
      using 5 assms(2) by (simp_all add: pow2_def)
    note d = double_binade [OF b, simplified]
    have "x < 3 - 1 / 2 ^ 52" using assms(2) by simp
    then have "?r < 3 * 2 ^ 51"
      using round_half_even_less_even [of "3 * 2 ^ 51" "x * 2 ^ 51"] by (simp add: algebra_simps)
    with d(2) have "\<lfloor>real_of_int ?r / 2 ^ 51\<rfloor> = 2" by (intro floor_div_pow2) simp_all
    moreover have "\<not> x < 1 - 1 / 2 ^ 54" "\<not> x < 2 - 1 / 2 ^ 53" using 5 by simp_all
    ultimately show ?thesis by (simp add: js_floor_def d(1))
  qed
qed

subsection \<open>The controller\<close>

lemma restartIdleTimer_frame [simp]:
  "currentPanel (restartIdleTimer e s) = currentPanel s"
  "codespacesKeepAliveTimer (restartIdleTimer e s) = codespacesKeepAliveTimer s"
  "ignoreActivityUntil (restartIdleTimer e s) = ignoreActivityUntil s"
  "sendingCodespacesKeepAlive (restartIdleTimer e s) = sendingCodespacesKeepAlive s"
  "intervals (restartIdleTimer e s) = intervals s"
  "openPanels (restartIdleTimer e s) = openPanels s"
  "heartbeats (restartIdleTimer e s) = heartbeats s"
  "disposed (restartIdleTimer e s) = disposed s"
  by (simp_all add: restartIdleTimer_def clearTimeout_def setTimeout_def Let_def
        split: option.splits)

lemma restartIdleTimer_idleTimer:
  "idleTimer (restartIdleTimer e s) = (if eligible e s then Some (nextHandle s) else None)"
  by (simp add: restartIdleTimer_def eligible_def clearTimeout_def setTimeout_def Let_def
        split: option.splits)

lemma restartIdleTimer_timeouts:
  "timeouts (restartIdleTimer e s) =
     filter (\<lambda>t. Some (fst t) \<noteq> idleTimer s) (timeouts s) @
     (if eligible e s then [(nextHandle s, timer_delay (getIdleMs e))] else [])"
  by (simp add: restartIdleTimer_def eligible_def clearTimeout_def setTimeout_def Let_def
        split: option.splits)

lemma restartIdleTimer_nextHandle:
  "nextHandle (restartIdleTimer e s) = (if eligible e s then Suc (nextHandle s) else nextHandle s)"
  by (simp add: restartIdleTimer_def eligible_def clearTimeout_def setTimeout_def Let_def
        split: option.splits)

lemma show_frame [simp]:
  "idleTimer (fst (show e m s)) = idleTimer s"
  "codespacesKeepAliveTimer (fst (show e m s)) = codespacesKeepAliveTimer s"
  "sendingCodespacesKeepAlive (fst (show e m s)) = sendingCodespacesKeepAlive s"
  "timeouts (fst (show e m s)) = timeouts s"
  "intervals (fst (show e m s)) = intervals s"
  "heartbeats (fst (show e m s)) = heartbeats s"
  "disposed (fst (show e m s)) = disposed s"
  by (simp_all add: show_def setIgnoreActivityFor_def createWebviewPanel_def Let_def
        split: option.splits prod.splits)

lemma show_opens:
  assumes "currentPanel s = None" "resolveScreenSaver (Math_random e) m = Some j"
  shows "currentPanel (fst (show e m s)) =
           Some \<lparr>panel_handle = nextHandle s,
                 panel_title = ''ScreenSaver: '' @ fst (SCREENSAVERS j),
                 panel_html = (case webviewHtml e (snd (SCREENSAVERS j))
                                      (truthy (getPreventDisplaySleepEnabled e)) of
                                 None \<Rightarrow> [] | Some html \<Rightarrow> html)\<rparr>"
    "openPanels (fst (show e m s)) = openPanels s @ [nextHandle s]"
    "ignoreActivityUntil (fst (show e m s)) = now e + 500"
    "snd (show e m s) = (case webviewHtml e (snd (SCREENSAVERS j))
                                (truthy (getPreventDisplaySleepEnabled e)) of
                           None \<Rightarrow> Some AssetReadError | Some html \<Rightarrow> None)"
  using assms
  by (simp_all add: show_def setIgnoreActivityFor_def createWebviewPanel_def Let_def
        INTERNAL_ACTIVITY_IGNORE_MS_def split: option.splits prod.splits)

lemma panel_dispose_frame [simp]:
  "currentPanel s = None \<Longrightarrow> currentPanel (panel_dispose e p s) = None"
  "codespacesKeepAliveTimer (panel_dispose e p s) = codespacesKeepAliveTimer s"
  "ignoreActivityUntil (panel_dispose e p s) = ignoreActivityUntil s"
  "sendingCodespacesKeepAlive (panel_dispose e p s) = sendingCodespacesKeepAlive s"
  "intervals (panel_dispose e p s) = intervals s"
  "heartbeats (panel_dispose e p s) = heartbeats s"
  "disposed (panel_dispose e p s) = disposed s"
  by (simp_all add: panel_dispose_def onDidDispose_def)

lemma panel_dispose_closed: "panel_handle p \<notin> set (openPanels (panel_dispose e p s))"
  by (simp add: panel_dispose_def onDidDispose_def)

lemma stopScreensaver_frame [simp]:
  "codespacesKeepAliveTimer (stopScreensaver e s) = codespacesKeepAliveTimer s"
  "sendingCodespacesKeepAlive (stopScreensaver e s) = sendingCodespacesKeepAlive s"
  "intervals (stopScreensaver e s) = intervals s"
  "heartbeats (stopScreensaver e s) = heartbeats s"
  "disposed (stopScreensaver e s) = disposed s"
  by (simp_all add: stopScreensaver_def setIgnoreActivityFor_def Let_def split: option.splits)

lemma stopScreensaver_stops:
  assumes "currentPanel s = Some p"
  shows "currentPanel (stopScreensaver e s) = None"
    "panel_handle p \<notin> set (openPanels (stopScreensaver e s))"
    "ignoreActivityUntil (stopScreensaver e s) = now e + 500"
  using assms
  by (simp_all add: stopScreensaver_def setIgnoreActivityFor_def Let_def panel_dispose_closed
        INTERNAL_ACTIVITY_IGNORE_MS_def)



subsection \<open>The random choice\<close>

lemma Math_random_range: "0 \<le> Math_random e" "Math_random e \<le> 1 - 1 / 2 ^ 53"
proof -
  define m where "m = random_mantissa e mod 2 ^ 53"
  define j where "j = min 1074 (max 53 (random_scale e)) - 53"
  have j: "min 1074 (max 53 (random_scale e)) = 53 + j" by (simp add: j_def)
  have "m < 2 ^ 53" by (simp add: m_def)
  then have "m + 1 \<le> 2 ^ 53" by simp
  then have "real m + 1 \<le> 2 ^ 53" using of_nat_mono [where ?'a = real] by fastforce
  then have m: "real m / 2 ^ 53 \<le> 1 - 1 / 2 ^ 53" by (simp add: field_simps)
  have r: "Math_random e = (real m / 2 ^ 53) / 2 ^ j"
    unfolding Math_random_def j m_def by (simp add: power_add)
  show "0 \<le> Math_random e" by (simp add: r)
  have "(real m / 2 ^ 53) / 2 ^ j \<le> real m / 2 ^ 53" by (rule div_pow2_le) simp
  with m show "Math_random e \<le> 1 - 1 / 2 ^ 53" by (simp only: r)
qed

lemma resolveScreenSaver_Random:
  assumes "0 \<le> r" "r \<le> 1 - 1 / 2 ^ 53"
  shows "resolveScreenSaver r Random =
     Some (if r * 3 < 1 - 1 / 2 ^ 54 then Beziers
           else if r * 3 < 2 - 1 / 2 ^ 53 then Mystify else FlyingWindows)"
proof -
  have "0 \<le> r * 3" "r * 3 \<le> 3 - 3 / 2 ^ 53" using assms by simp_all
  from double_floor_three [OF this] show ?thesis
    by (simp add: resolveScreenSaver_def)
qed

lemma resolveScreenSaver_defined: "resolveScreenSaver (Math_random e) mode \<noteq> None"
proof (cases mode)
  case (Concrete i)
  then show ?thesis by (simp add: resolveScreenSaver_def)
next
  case Random
  then show ?thesis
    by (simp add: resolveScreenSaver_Random [OF Math_random_range])
qed

subsection \<open>The delay of a timer\<close>

lemma timer_delay_whole:
  assumes "\<bar>k\<bar> < 2 ^ 53"
  shows "timer_delay (double_of_real (of_int k)) = (if 1 \<le> k \<and> k \<le> 2147483647 then k else 1)"
  by (simp add: double_of_int [OF assms] timer_delay_def TIMEOUT_MAX_def)

lemma idle_ms_whole_minutes:
  assumes "getIdleMinutes e = of_int n" "1 \<le> n" "n \<le> 150000000000"
  shows "timer_delay (getIdleMs e) = (if n \<le> 35791 then n * 60000 else 1)"
proof -
  have "max 1 (getIdleMinutes e) * 60000 = of_int (n * 60000)"
    using assms(1,2) by (simp add: max_def)
  moreover have "\<bar>n * 60000\<bar> < 2 ^ 53" using assms(2,3) by simp
  ultimately show ?thesis
    using assms(2) by (simp add: getIdleMs_def timer_delay_whole del: of_int_mult)
qed


subsection \<open>The heartbeat invariant\<close>

lemma heartbeat_inv_heartbeat: "heartbeat_inv s \<Longrightarrow> heartbeat_inv (heartbeat s)"
  by (auto simp: heartbeat_inv_def heartbeat_def)

lemma heartbeat_inv_settled: "heartbeat_inv s \<Longrightarrow> heartbeat_inv (heartbeat_settled i r s)"
  by (cases "heartbeats s")
     (auto simp: heartbeat_inv_def heartbeat_settled_def heartbeat_finished_def
        split: awaiting.splits)

lemma restartCodespacesKeepAlive_hb:
  "heartbeats (restartCodespacesKeepAlive e s) = heartbeats s \<and>
     sendingCodespacesKeepAlive (restartCodespacesKeepAlive e s) = sendingCodespacesKeepAlive s \<or>
   heartbeats (restartCodespacesKeepAlive e s) = heartbeats (heartbeat s) \<and>
     sendingCodespacesKeepAlive (restartCodespacesKeepAlive e s) =
       sendingCodespacesKeepAlive (heartbeat s)"
  by (simp add: restartCodespacesKeepAlive_def clearInterval_def setInterval_def heartbeat_def
      Let_def split: option.splits)

lemma heartbeat_inv_restartCodespacesKeepAlive:
  "heartbeat_inv s \<Longrightarrow> heartbeat_inv (restartCodespacesKeepAlive e s)"
  using restartCodespacesKeepAlive_hb [of e s] heartbeat_inv_heartbeat [of s]
  by (auto simp: heartbeat_inv_def)

lemma handleUserActivity_frame [simp]:
  "sendingCodespacesKeepAlive (handleUserActivity e b s) = sendingCodespacesKeepAlive s"
  "heartbeats (handleUserActivity e b s) = heartbeats s"
  "intervals (handleUserActivity e b s) = intervals s"
  "codespacesKeepAliveTimer (handleUserActivity e b s) = codespacesKeepAliveTimer s"
  "disposed (handleUserActivity e b s) = disposed s"
  by (simp_all add: handleUserActivity_def)

lemma idleTimerCallback_frame [simp]:
  "sendingCodespacesKeepAlive (fst (idleTimerCallback e s)) = sendingCodespacesKeepAlive s"
  "heartbeats (fst (idleTimerCallback e s)) = heartbeats s"
  "intervals (fst (idleTimerCallback e s)) = intervals s"
  "codespacesKeepAliveTimer (fst (idleTimerCallback e s)) = codespacesKeepAliveTimer s"
  "timeouts (fst (idleTimerCallback e s)) = timeouts s"
  "idleTimer (fst (idleTimerCallback e s)) = None"
  "disposed (fst (idleTimerCallback e s)) = disposed s"
  by (simp_all add: idleTimerCallback_def setIgnoreActivityFor_def Let_def)

lemma onDidReceiveMessage_frame [simp]:
  "sendingCodespacesKeepAlive (fst (onDidReceiveMessage e m s)) = sendingCodespacesKeepAlive s"
  "heartbeats (fst (onDidReceiveMessage e m s)) = heartbeats s"
  "intervals (fst (onDidReceiveMessage e m s)) = intervals s"
  "codespacesKeepAliveTimer (fst (onDidReceiveMessage e m s)) = codespacesKeepAliveTimer s"
  by (simp_all add: onDidReceiveMessage_def split: sum.splits)

lemma toggleScreenSaver_frame [simp]:
  "sendingCodespacesKeepAlive (fst (toggleScreenSaver e s)) = sendingCodespacesKeepAlive s"
  "heartbeats (fst (toggleScreenSaver e s)) = heartbeats s"
  "intervals (fst (toggleScreenSaver e s)) = intervals s"
  "codespacesKeepAliveTimer (fst (toggleScreenSaver e s)) = codespacesKeepAliveTimer s"
  by (simp_all add: toggleScreenSaver_def)

lemma dispose_subscriptions_frame [simp]:
  "sendingCodespacesKeepAlive (dispose_subscriptions s) = sendingCodespacesKeepAlive s"
  "heartbeats (dispose_subscriptions s) = heartbeats s"
  by (simp_all add: dispose_subscriptions_def teardown_def clearTimeout_def clearInterval_def
      Let_def split: option.splits)

lemma clearTimeout_frame [simp]:
  "sendingCodespacesKeepAlive (clearTimeout h s) = sendingCodespacesKeepAlive s"
  "heartbeats (clearTimeout h s) = heartbeats s"
  by (simp_all add: clearTimeout_def)

lemma heartbeat_inv_step:
  assumes "heartbeat_inv s" shows "heartbeat_inv (step e ev s)"
proof (cases ev)
  case (AwaitSettled i r)
  with assms show ?thesis by (simp add: step_def heartbeat_inv_settled)
next
  case (IntervalFired h)
  with assms show ?thesis by (simp add: step_def heartbeat_inv_heartbeat)
next
  case (ConfigurationChanged a)
  from assms have "heartbeat_inv (restartIdleTimer e s)" by (simp add: heartbeat_inv_def)
  then have "heartbeat_inv (restartCodespacesKeepAlive e (restartIdleTimer e s))"
    by (rule heartbeat_inv_restartCodespacesKeepAlive)
  with assms ConfigurationChanged show ?thesis by (simp add: step_def)
qed (use assms in \<open>simp_all add: step_def heartbeat_inv_def split: option.splits\<close>)

lemma heartbeat_inv_run: "heartbeat_inv s \<Longrightarrow> heartbeat_inv (run evs s)"
  by (induction evs arbitrary: s) (auto simp: heartbeat_inv_step)

lemma heartbeat_inv_start: "heartbeat_inv (controller_start e)"
proof -
  have "heartbeat_inv (restartIdleTimer e initial_state)"
    by (simp add: heartbeat_inv_def initial_state_def)
  then show ?thesis
    by (simp add: controller_start_def heartbeat_inv_restartCodespacesKeepAlive)
qed

lemma activate_started: "snd (activate e st) = Inr s0 \<Longrightarrow> s0 = controller_start e"
  by (auto simp: activate_def split: prod.splits option.splits)

subsection \<open>The tracked timers\<close>

lemma timers_tracked_cong:
  "timeouts t = timeouts s \<Longrightarrow> idleTimer t = idleTimer s \<Longrightarrow> intervals t = intervals s \<Longrightarrow>
   codespacesKeepAliveTimer t = codespacesKeepAliveTimer s \<Longrightarrow>
   timers_tracked t = timers_tracked s"
  by (simp add: timers_tracked_def)

lemma tracked_filter:
  "map fst xs = (case t of None \<Rightarrow> [] | Some h \<Rightarrow> [h]) \<Longrightarrow>
   filter (\<lambda>x. Some (fst x) \<noteq> t) xs = []"
  by (cases t; cases xs) auto

lemma timers_tracked_restartIdleTimer:
  assumes "timers_tracked s" shows "timers_tracked (restartIdleTimer e s)"
proof -
  from assms have "filter (\<lambda>x. Some (fst x) \<noteq> idleTimer s) (timeouts s) = []"
    by (simp add: timers_tracked_def tracked_filter)
  with assms show ?thesis
    by (simp add: timers_tracked_def restartIdleTimer_timeouts restartIdleTimer_idleTimer)
qed

lemma timers_tracked_panel_dispose:
  assumes "timers_tracked s" shows "timers_tracked (panel_dispose e p s)"
proof -
  have "timers_tracked (s\<lparr>openPanels := removeAll (panel_handle p) (openPanels s), currentPanel := None\<rparr>)"
    using assms by (simp add: timers_tracked_def)
  then show ?thesis
    using assms by (simp add: panel_dispose_def onDidDispose_def timers_tracked_restartIdleTimer)
qed

lemma timers_tracked_stopScreensaver:
  assumes "timers_tracked s" shows "timers_tracked (stopScreensaver e s)"
proof (cases "currentPanel s")
  case None
  with assms show ?thesis by (simp add: stopScreensaver_def)
next
  case (Some p)
  have "timers_tracked (setIgnoreActivityFor e INTERNAL_ACTIVITY_IGNORE_MS (s\<lparr>currentPanel := None\<rparr>))"
    using assms by (simp add: timers_tracked_def setIgnoreActivityFor_def)
  then show ?thesis
    using Some
    by (simp add: stopScreensaver_def Let_def timers_tracked_restartIdleTimer
        timers_tracked_panel_dispose)
qed

lemma timers_tracked_handleUserActivity:
  "timers_tracked s \<Longrightarrow> timers_tracked (handleUserActivity e b s)"
  by (simp add: handleUserActivity_def timers_tracked_restartIdleTimer timers_tracked_stopScreensaver)

lemma timers_tracked_show: "timers_tracked (fst (show e m s)) = timers_tracked s"
  by (rule timers_tracked_cong) simp_all

lemma heartbeat_timers [simp]:
  "timeouts (heartbeat s) = timeouts s" "idleTimer (heartbeat s) = idleTimer s"
  "intervals (heartbeat s) = intervals s"
  "codespacesKeepAliveTimer (heartbeat s) = codespacesKeepAliveTimer s"
  "nextHandle (heartbeat s) = nextHandle s"
  by (simp_all add: heartbeat_def)

lemma heartbeat_settled_timers [simp]:
  "timeouts (heartbeat_settled i r s) = timeouts s"
  "idleTimer (heartbeat_settled i r s) = idleTimer s"
  "intervals (heartbeat_settled i r s) = intervals s"
  "codespacesKeepAliveTimer (heartbeat_settled i r s) = codespacesKeepAliveTimer s"
  by (simp_all add: heartbeat_settled_def heartbeat_finished_def split: awaiting.splits)

lemma timers_tracked_restartCodespacesKeepAlive:
  assumes "timers_tracked s" shows "timers_tracked (restartCodespacesKeepAlive e s)"
proof -
  from assms have "filter (\<lambda>x. Some (fst x) \<noteq> codespacesKeepAliveTimer s) (intervals s) = []"
    by (simp add: timers_tracked_def tracked_filter)
  then have "filter (\<lambda>x. fst x \<noteq> h) (intervals s) = []" if "codespacesKeepAliveTimer s = Some h" for h
    using that by (auto simp: filter_empty_conv)
  with assms show ?thesis
    by (auto simp: timers_tracked_def restartCodespacesKeepAlive_def clearInterval_def
        setInterval_def Let_def split: option.splits)
qed

lemma timers_tracked_dispose_subscriptions:
  assumes "timers_tracked s" shows "timers_tracked (dispose_subscriptions s)"
proof -
  from assms have "filter (\<lambda>x. Some (fst x) \<noteq> codespacesKeepAliveTimer s) (intervals s) = []"
    and "filter (\<lambda>x. Some (fst x) \<noteq> idleTimer s) (timeouts s) = []"
    by (simp_all add: timers_tracked_def tracked_filter)
  then have "filter (\<lambda>x. fst x \<noteq> h) (intervals s) = []" if "codespacesKeepAliveTimer s = Some h" for h
    using that by (auto simp: filter_empty_conv)
  moreover have "filter (\<lambda>x. fst x \<noteq> h) (timeouts s) = []" if "idleTimer s = Some h" for h
    using that \<open>filter (\<lambda>x. Some (fst x) \<noteq> idleTimer s) (timeouts s) = []\<close>
    by (auto simp: filter_empty_conv)
  ultimately show ?thesis
    using assms
    by (auto simp: timers_tracked_def dispose_subscriptions_def teardown_def clearTimeout_def
        clearInterval_def Let_def split: option.splits)
qed

lemma timers_tracked_fired:
  assumes "timers_tracked s" "h \<in> set (map fst (timeouts s))"
  shows "timers_tracked (fst (idleTimerCallback e (clearTimeout h s)))"
proof -
  from assms have "idleTimer s = Some h" "map fst (timeouts s) = [h]"
    by (auto simp: timers_tracked_def split: option.splits)
  then have "filter (\<lambda>x. fst x \<noteq> h) (timeouts s) = []"
    by (cases "timeouts s") auto
  with assms show ?thesis
    by (simp add: timers_tracked_def clearTimeout_def)
qed

lemma timers_tracked_step:
  assumes "timers_tracked s" shows "timers_tracked (step e ev s)"
proof (cases ev)
  case Activity
  with assms show ?thesis by (simp add: step_def timers_tracked_handleUserActivity)
next
  case (Message m)
  with assms show ?thesis
    by (simp add: step_def onDidReceiveMessage_def timers_tracked_handleUserActivity
        split: sum.splits)
next
  case PanelClosed
  with assms show ?thesis
    by (simp add: step_def timers_tracked_panel_dispose split: option.splits)
next
  case (TimeoutFired h)
  with assms show ?thesis by (simp add: step_def timers_tracked_fired)
next
  case (IntervalFired h)
  with assms show ?thesis by (simp add: step_def timers_tracked_cong [of "heartbeat s" s])
next
  case (AwaitSettled i r)
  with assms show ?thesis
    by (simp add: step_def timers_tracked_cong [of "heartbeat_settled i r s" s])
next
  case (ConfigurationChanged a)
  with assms show ?thesis
    by (simp add: step_def timers_tracked_restartIdleTimer
        timers_tracked_restartCodespacesKeepAlive)
next
  case ToggleCommand
  with assms show ?thesis
    by (simp add: step_def toggleScreenSaver_def timers_tracked_show
        timers_tracked_stopScreensaver)
next
  case (ShowCommand i)
  with assms show ?thesis by (simp add: step_def timers_tracked_show)
next
  case DisposeSubscriptions
  with assms show ?thesis by (simp add: step_def timers_tracked_dispose_subscriptions)
qed

lemma timers_tracked_run: "timers_tracked s \<Longrightarrow> timers_tracked (run evs s)"
  by (induction evs arbitrary: s) (auto simp: timers_tracked_step)

lemma timers_tracked_start: "timers_tracked (controller_start e)"
proof -
  have "timers_tracked initial_state" by (simp add: timers_tracked_def initial_state_def)
  then show ?thesis
    by (simp add: controller_start_def timers_tracked_restartIdleTimer
        timers_tracked_restartCodespacesKeepAlive)
qed

lemma reachable_timers_tracked:
  "snd (activate e st) = Inr s0 \<Longrightarrow> timers_tracked (run evs s0)"
  using timers_tracked_run [OF timers_tracked_start] by (auto dest: activate_started)

text \<open>
  So in every state reached from activation the only pending timeout is the
  one whose handle \<open>idleTimer\<close> holds.
\<close>

lemma reachable_timeouts_tracked:
  "snd (activate e st) = Inr s0 \<Longrightarrow>
   set (map fst (timeouts (run evs s0))) \<subseteq> set_option (idleTimer (run evs s0))"
  using reachable_timers_tracked [of e st s0 evs]
  by (auto simp: timers_tracked_def split: option.splits)

subsection \<open>Fresh handles\<close>

lemma handle_fresh_mono:
  "handle_fresh s \<Longrightarrow> idleTimer t = idleTimer s \<Longrightarrow> nextHandle s \<le> nextHandle t \<Longrightarrow> handle_fresh t"
  by (auto simp: handle_fresh_def)

lemma handle_fresh_restartIdleTimer: "handle_fresh (restartIdleTimer e s)"
  by (simp add: handle_fresh_def restartIdleTimer_idleTimer restartIdleTimer_nextHandle)

lemma show_nextHandle: "nextHandle s \<le> nextHandle (fst (show e m s))"
  by (simp add: show_def setIgnoreActivityFor_def createWebviewPanel_def Let_def
      split: option.splits prod.splits)

lemma handle_fresh_show: "handle_fresh s \<Longrightarrow> handle_fresh (fst (show e m s))"
  by (rule handle_fresh_mono [where s = s]) (simp_all add: show_nextHandle)

lemma handle_fresh_stopScreensaver: "handle_fresh s \<Longrightarrow> handle_fresh (stopScreensaver e s)"
  by (simp add: stopScreensaver_def Let_def handle_fresh_restartIdleTimer split: option.splits)

lemma handle_fresh_handleUserActivity:
  "handle_fresh s \<Longrightarrow> handle_fresh (handleUserActivity e b s)"
  by (simp add: handleUserActivity_def handle_fresh_restartIdleTimer handle_fresh_stopScreensaver)

lemma handle_fresh_panel_dispose: "handle_fresh s \<Longrightarrow> handle_fresh (panel_dispose e p s)"
  by (simp add: panel_dispose_def onDidDispose_def handle_fresh_restartIdleTimer)

lemma restartCodespacesKeepAlive_idle:
  "idleTimer (restartCodespacesKeepAlive e s) = idleTimer s"
  "nextHandle s \<le> nextHandle (restartCodespacesKeepAlive e s)"
  by (simp_all add: restartCodespacesKeepAlive_def clearInterval_def setInterval_def heartbeat_def
      Let_def split: option.splits)

lemma handle_fresh_restartCodespacesKeepAlive:
  "handle_fresh s \<Longrightarrow> handle_fresh (restartCodespacesKeepAlive e s)"
  by (rule handle_fresh_mono [where s = s]) (simp_all add: restartCodespacesKeepAlive_idle)

lemma handle_fresh_callback: "handle_fresh (fst (idleTimerCallback e s))"
  by (simp add: handle_fresh_def)

lemma handle_fresh_step:
  assumes "handle_fresh s" shows "handle_fresh (step e ev s)"
proof (cases ev)
  case Activity
  with assms show ?thesis by (simp add: step_def handle_fresh_handleUserActivity)
next
  case (Message m)
  with assms show ?thesis
    by (simp add: step_def onDidReceiveMessage_def handle_fresh_handleUserActivity
        split: sum.splits)
next
  case PanelClosed
  with assms show ?thesis
    by (simp add: step_def handle_fresh_panel_dispose split: option.splits)
next
  case (TimeoutFired h)
  with assms show ?thesis by (simp add: step_def handle_fresh_callback)
next
  case (IntervalFired h)
  with assms show ?thesis by (simp add: step_def handle_fresh_def)
next
  case (AwaitSettled i r)
  with assms show ?thesis
    by (simp add: step_def handle_fresh_def heartbeat_settled_def heartbeat_finished_def
        split: awaiting.splits)
next
  case (ConfigurationChanged a)
  with assms show ?thesis
    by (simp add: step_def handle_fresh_restartIdleTimer handle_fresh_restartCodespacesKeepAlive)
next
  case ToggleCommand
  with assms show ?thesis
    by (simp add: step_def toggleScreenSaver_def handle_fresh_show handle_fresh_stopScreensaver)
next
  case (ShowCommand i)
  with assms show ?thesis by (simp add: step_def handle_fresh_show)
next
  case DisposeSubscriptions
  with assms show ?thesis
    by (simp add: step_def handle_fresh_def dispose_subscriptions_def teardown_def
        clearTimeout_def clearInterval_def Let_def split: option.splits)
qed

lemma handle_fresh_run: "handle_fresh s \<Longrightarrow> handle_fresh (run evs s)"
  by (induction evs arbitrary: s) (auto simp: handle_fresh_step)

lemma reachable_handle_fresh:
  "snd (activate e st) = Inr s0 \<Longrightarrow> handle_fresh (run evs s0)"
proof -
  have "handle_fresh (controller_start e)"
    by (simp add: controller_start_def handle_fresh_restartIdleTimer
        handle_fresh_restartCodespacesKeepAlive)
  then show "snd (activate e st) = Inr s0 \<Longrightarrow> handle_fresh (run evs s0)"
    by (auto dest: activate_started intro: handle_fresh_run)
qed

subsection \<open>The migration\<close>

lemma migrateSettings_done:
  "1 \<le> (case settingsMigrationVersion st of None \<Rightarrow> 0 | Some n \<Rightarrow> n) \<Longrightarrow>
   migrateSettings st = (st, None)"
  by (simp add: migrateSettings_def SETTINGS_MIGRATION_VERSION_def)

text \<open>
  With the user and the workspace settings writable, a first run forces the
  setting in those of the two scopes that hold a value, or in the user settings
  when neither does; the settings of a folder are left as they are.
\<close>

lemma migrateSettings_first_run:
  assumes "(case settingsMigrationVersion st of None \<Rightarrow> 0 | Some n \<Rightarrow> n) < 1"
    and "Workspace \<notin> set (unwritable st)" "Global \<notin> set (unwritable st)"
  shows "snd (migrateSettings st) = None"
    and "settingsMigrationVersion (fst (migrateSettings st)) = Some 1"
    and "workspaceFolderValues (fst (migrateSettings st)) = workspaceFolderValues st"
    and "workspaceValues (fst (migrateSettings st)) =
           (if scope_value (workspaceValues st) ''autoStart'' \<noteq> JUndefined
            then (workspaceValues st)(''autoStart'' \<mapsto> JBool True) else workspaceValues st)"
    and "globalValues (fst (migrateSettings st)) =
           (if scope_value (globalValues st) ''autoStart'' \<noteq> JUndefined \<or>
               scope_value (workspaceValues st) ''autoStart'' = JUndefined
            then (globalValues st)(''autoStart'' \<mapsto> JBool True) else globalValues st)"
  using assms
  by (simp_all add: migrateSettings_def overwriteSetting_def inspect_def config_update_def
      store_def SETTINGS_MIGRATION_VERSION_def Let_def)

subsection \<open>The concrete inputs, evaluated\<close>

lemmas fixture_defs = env_of_def env_unfocused_def env_codespaces_def
lemmas accessor_defs = getAutoStartEnabled_def getIdleMinutes_def getConfiguredMode_def
  getPreventDisplaySleepEnabled_def getCodespacesKeepAliveEnabled_def
  getCodespacesKeepAliveIntervalMinutes_def config_get_def
  CODESPACES_KEEPALIVE_DEFAULT_INTERVAL_MINUTES_def

lemmas controller_defs = restartIdleTimer_def clearTimeout_def setTimeout_def stopScreensaver_def
  panel_dispose_def onDidDispose_def handleUserActivity_def isIgnoringActivity_def
  setIgnoreActivityFor_def show_def createWebviewPanel_def INTERNAL_ACTIVITY_IGNORE_MS_def
  idleTimerCallback_def toggleScreenSaver_def onDidReceiveMessage_def
  WEBVIEW_ACTIVITY_MESSAGE_TYPE_def Let_def

lemma idle_ms_unset:
  "config e ''idleMinutes'' = None \<Longrightarrow> timer_delay (getIdleMs e) = 300000"
  using idle_ms_whole_minutes [of e 5] by (simp add: getIdleMinutes_def config_get_def)

lemma interval_ms_unset:
  assumes "config e ''codespacesKeepAliveIntervalMinutes'' = None"
  shows "timer_delay (getCodespacesKeepAliveIntervalMs e) = 180000"
proof -
  have m: "max 1 (getCodespacesKeepAliveIntervalMinutes e) * 60000 = 180000"
    using assms by (simp add: accessor_defs)
  show ?thesis
    unfolding getCodespacesKeepAliveIntervalMs_def m using timer_delay_whole [of 180000] by simp
qed

lemma random_half: "Math_random (env_of cfg) = 1 / 2"
  by (simp add: Math_random_def env_of_def)

lemma resolve_half: "resolveScreenSaver (1 / 2) Random = Some Mystify"
  by (simp add: resolveScreenSaver_Random)

lemma armed_state_eq:
  "armed_state =
     \<lparr>currentPanel = None, idleTimer = Some 0, codespacesKeepAliveTimer = None,
      ignoreActivityUntil = 0, sendingCodespacesKeepAlive = False,
      timeouts = [(0, 300000)], intervals = [], openPanels = [], heartbeats = [],
      nextHandle = 1, disposed = False\<rparr>"
  by (simp add: armed_state_def restartIdleTimer_def initial_state_def fixture_defs
      getAutoStartEnabled_def config_get_def setTimeout_def idle_ms_unset Let_def)

lemma shown_state_eq:
  "shown_state =
     \<lparr>currentPanel = Some \<lparr>panel_handle = 1, panel_title = ''ScreenSaver: Beziers'',
                            panel_html = ''screensavers/beziers.html''\<rparr>,
      idleTimer = Some 0, codespacesKeepAliveTimer = None,
      ignoreActivityUntil = 1500, sendingCodespacesKeepAlive = False,
      timeouts = [(0, 300000)], intervals = [], openPanels = [1], heartbeats = [],
      nextHandle = 2, disposed = False\<rparr>"
  by (simp add: shown_state_def armed_state_eq show_def resolveScreenSaver_def
      setIgnoreActivityFor_def createWebviewPanel_def INTERNAL_ACTIVITY_IGNORE_MS_def
      fixture_defs accessor_defs Let_def)

lemma toLower_TRUE: "map toLowerChar ''TRUE'' = ''true''"
  by code_simp

lemma isCodespaces: "isCodespacesEnvironment env_codespaces"
  using toLower_TRUE by (simp add: isCodespacesEnvironment_def env_codespaces_def env_of_def)

lemma codespaces_state_eq:
  "codespaces_state =
     \<lparr>currentPanel = None, idleTimer = Some 0, codespacesKeepAliveTimer = Some 1,
      ignoreActivityUntil = 0, sendingCodespacesKeepAlive = True,
      timeouts = [(0, 300000)], intervals = [(1, 180000)], openPanels = [],
      heartbeats = [CreateDirectory], nextHandle = 2, disposed = False\<rparr>"
  by (simp add: codespaces_state_def controller_start_def restartCodespacesKeepAlive_def
      isCodespaces heartbeat_def setInterval_def setTimeout_def restartIdleTimer_def
      initial_state_def idle_ms_unset interval_ms_unset getAutoStartEnabled_def
      getCodespacesKeepAliveEnabled_def config_get_def Let_def)
     (simp add: fixture_defs idle_ms_unset interval_ms_unset)

lemma last_await_state_eq:
  "last_await_state = codespaces_state\<lparr>heartbeats := [SetContext]\<rparr>"
  by (simp add: last_await_state_def codespaces_state_eq step_def heartbeat_settled_def)

section \<open>The claims\<close>

subsection \<open>C4: numeric settings\<close>

text \<open>
  Claim C4. A stored \<open>idleMinutes\<close> or \<open>codespacesKeepAliveIntervalMinutes\<close>
  that is a finite number above zero is returned unchanged by its accessor; any
  other stored value (not a number, not finite, zero or below) and an unset
  key give the default, 5 for \<open>idleMinutes\<close> and 3 for the keep-alive interval.
\<close>

theorem numeric_settings_validated:
  "(\<forall>r. config e ''idleMinutes'' = Some (JNum (Fin r)) \<and> 0 < r \<longrightarrow> getIdleMinutes e = r) \<and>
   (\<not> (\<exists>r. config e ''idleMinutes'' = Some (JNum (Fin r)) \<and> 0 < r) \<longrightarrow> getIdleMinutes e = 5) \<and>
   (\<forall>r. config e ''codespacesKeepAliveIntervalMinutes'' = Some (JNum (Fin r)) \<and> 0 < r
      \<longrightarrow> getCodespacesKeepAliveIntervalMinutes e = r) \<and>
   (\<not> (\<exists>r. config e ''codespacesKeepAliveIntervalMinutes'' = Some (JNum (Fin r)) \<and> 0 < r)
      \<longrightarrow> getCodespacesKeepAliveIntervalMinutes e = 3)"
  by (auto simp: getIdleMinutes_def getCodespacesKeepAliveIntervalMinutes_def config_get_def
        CODESPACES_KEEPALIVE_DEFAULT_INTERVAL_MINUTES_def
      split: option.splits jsval.splits jsnum.splits)

text \<open>At 7 and 9 minutes the values are kept; the string \<open>10\<close> and \<open>-2\<close> give the defaults.\<close>

theorem numeric_settings_validated_witness:
  "getIdleMinutes (env_of [(''idleMinutes'', JNum (Fin 7)),
                           (''codespacesKeepAliveIntervalMinutes'', JNum (Fin 9))]) = 7 \<and>
   getCodespacesKeepAliveIntervalMinutes
     (env_of [(''idleMinutes'', JNum (Fin 7)),
              (''codespacesKeepAliveIntervalMinutes'', JNum (Fin 9))]) = 9 \<and>
   getIdleMinutes (env_of [(''idleMinutes'', JStr ''10''),
                           (''codespacesKeepAliveIntervalMinutes'', JNum (Fin (- 2)))]) = 5 \<and>
   getCodespacesKeepAliveIntervalMinutes
     (env_of [(''idleMinutes'', JStr ''10''),
              (''codespacesKeepAliveIntervalMinutes'', JNum (Fin (- 2)))]) = 3"
  using
    numeric_settings_validated [of "env_of [(''idleMinutes'', JNum (Fin 7)),
        (''codespacesKeepAliveIntervalMinutes'', JNum (Fin 9))]"]
    numeric_settings_validated [of "env_of [(''idleMinutes'', JStr ''10''),
        (''codespacesKeepAliveIntervalMinutes'', JNum (Fin (- 2)))]"]
  by (simp add: env_of_def)

subsection \<open>C10: stopping without a panel\<close>

text \<open>
  Claim C10. \<open>stopScreensaver\<close> called while no panel is shown leaves the whole
  state as it is: the ignore-window timestamp, the idle timer with the host's
  pending timeouts, and the absent panel reference.
\<close>

theorem stopScreensaver_without_panel:
  "currentPanel s = None \<Longrightarrow> stopScreensaver e s = s"
  by (simp add: stopScreensaver_def)

theorem stopScreensaver_without_panel_witness:
  "currentPanel armed_state = None \<and> stopScreensaver (env_of []) armed_state = armed_state"
  using stopScreensaver_without_panel [of armed_state "env_of []"]
  by (simp add: armed_state_eq)

subsection \<open>C2: activity and the ignore window\<close>

text \<open>
  Claim C2. \<open>handleUserActivity\<close> without bypass drops the event and changes
  nothing when the clock is strictly before \<open>ignoreActivityUntil\<close>; at or after
  it, and always with bypass, a shown panel is stopped (the reference cleared,
  the panel closed, the ignore window set again) and otherwise the idle re-arm
  rule runs.
\<close>

theorem handleUserActivity_suppression:
  "handleUserActivity e False s =
     (if now e < ignoreActivityUntil s then s else handleUserActivity e True s) \<and>
   handleUserActivity e True s =
     (if currentPanel s \<noteq> None then stopScreensaver e s else restartIdleTimer e s) \<and>
   (\<forall>p. currentPanel s = Some p \<longrightarrow>
      currentPanel (handleUserActivity e True s) = None \<and>
      panel_handle p \<notin> set (openPanels (handleUserActivity e True s)) \<and>
      ignoreActivityUntil (handleUserActivity e True s) = now e + 500) \<and>
   (currentPanel s = None \<longrightarrow>
      idleTimer (handleUserActivity e True s) = (if eligible e s then Some (nextHandle s) else None))"
  by (auto simp: handleUserActivity_def isIgnoringActivity_def stopScreensaver_stops
        restartIdleTimer_idleTimer)

text \<open>
  The panel was shown at 1000 ms, so the window ends at 1500 ms: an event at
  1499 ms is dropped, one at 1500 ms stops the panel.
\<close>

theorem handleUserActivity_suppression_witness:
  "handleUserActivity ((env_of [])\<lparr>now := 1499\<rparr>) False shown_state = shown_state \<and>
   currentPanel (handleUserActivity ((env_of [])\<lparr>now := 1500\<rparr>) False shown_state) = None \<and>
   ignoreActivityUntil (handleUserActivity ((env_of [])\<lparr>now := 1500\<rparr>) False shown_state) = 2000 \<and>
   1 \<notin> set (openPanels (handleUserActivity ((env_of [])\<lparr>now := 1500\<rparr>) True shown_state)) \<and>
   idleTimer (handleUserActivity (env_of []) False armed_state) = Some 1"
  using handleUserActivity_suppression [of "(env_of [])\<lparr>now := 1499\<rparr>" shown_state]
    handleUserActivity_suppression [of "(env_of [])\<lparr>now := 1500\<rparr>" shown_state]
    handleUserActivity_suppression [of "env_of []" armed_state]
  by (simp add: shown_state_eq armed_state_eq eligible_def env_of_def controller_defs accessor_defs
      idle_ms_unset)

subsection \<open>C5: the configured mode and its resolution\<close>

text \<open>
  Claim C5. Every stored mode other than the strings \<open>beziers\<close>, \<open>mystify\<close>,
  \<open>flyingWindows\<close> and \<open>random\<close> makes \<open>getConfiguredMode\<close> return \<open>random\<close>.
  \<open>resolveScreenSaver\<close> returns a concrete mode unchanged and, for every value
  of \<^verbatim>\<open>Math.random()\<close>, one of the three animations. The choice for \<open>random\<close>
  is the floor of the double product of that value \<open>r\<close> and 3: Beziers while the
  exact product is below \<^verbatim>\<open>1 - 2^-54\<close>, Mystify from there to below
  \<^verbatim>\<open>2 - 2^-53\<close>, Flying Windows from there on. So each animation has an
  interval of values of \<open>r\<close> that is one third of the range long, up to the
  rounding of the product (less than \<^verbatim>\<open>2^-53\<close>): the choice is as uniform as
  \<^verbatim>\<open>Math.random()\<close> is.
\<close>

theorem mode_resolution:
  "(\<forall>v. config e ''mode'' = Some v \<and>
         v \<notin> {JStr ''beziers'', JStr ''mystify'', JStr ''flyingWindows'', JStr ''random''}
      \<longrightarrow> getConfiguredMode e = Random) \<and>
   resolveScreenSaver r (Concrete i) = Some i \<and>
   (\<exists>j. resolveScreenSaver (Math_random e) mode = Some j) \<and>
   0 \<le> Math_random e \<and> Math_random e \<le> 1 - 1 / 2 ^ 53 \<and>
   (0 \<le> r \<and> r \<le> 1 - 1 / 2 ^ 53 \<longrightarrow>
      (resolveScreenSaver r Random = Some Beziers \<longleftrightarrow> r * 3 < 1 - 1 / 2 ^ 54) \<and>
      (resolveScreenSaver r Random = Some Mystify \<longleftrightarrow>
         1 - 1 / 2 ^ 54 \<le> r * 3 \<and> r * 3 < 2 - 1 / 2 ^ 53) \<and>
      (resolveScreenSaver r Random = Some FlyingWindows \<longleftrightarrow> 2 - 1 / 2 ^ 53 \<le> r * 3))"
proof -
  have a: "\<forall>v. config e ''mode'' = Some v \<and>
         v \<notin> {JStr ''beziers'', JStr ''mystify'', JStr ''flyingWindows'', JStr ''random''}
      \<longrightarrow> getConfiguredMode e = Random"
    by (auto simp: getConfiguredMode_def config_get_def split: jsval.splits)
  have b: "resolveScreenSaver r (Concrete i) = Some i"
    by (simp add: resolveScreenSaver_def)
  have d: "\<exists>j. resolveScreenSaver (Math_random e) mode = Some j"
    using resolveScreenSaver_defined [of e mode] by auto
  have f: "(resolveScreenSaver r Random = Some Beziers \<longleftrightarrow> r * 3 < 1 - 1 / 2 ^ 54) \<and>
      (resolveScreenSaver r Random = Some Mystify \<longleftrightarrow>
         1 - 1 / 2 ^ 54 \<le> r * 3 \<and> r * 3 < 2 - 1 / 2 ^ 53) \<and>
      (resolveScreenSaver r Random = Some FlyingWindows \<longleftrightarrow> 2 - 1 / 2 ^ 53 \<le> r * 3)"
    if "0 \<le> r" "r \<le> 1 - 1 / 2 ^ 53"
    by (simp add: resolveScreenSaver_Random [OF that])
  show ?thesis using a b d f Math_random_range [of e] by blast
qed

text \<open>
  The unknown mode \<open>plasma\<close> reads as \<open>random\<close>; one half resolves to Mystify;
  the largest double below two thirds, 6004799503160661 / \<^verbatim>\<open>2^53\<close>, resolves
  to Flying Windows, because its product with 3 rounds to 2.
\<close>

theorem mode_resolution_witness:
  "getConfiguredMode (env_of [(''mode'', JStr ''plasma'')]) = Random \<and>
   resolveScreenSaver (1 / 2) Random = Some Mystify \<and>
   6004799503160661 / 2 ^ 53 < (2 / 3 :: real) \<and>
   resolveScreenSaver (6004799503160661 / 2 ^ 53) Random = Some FlyingWindows \<and>
   resolveScreenSaver (1 / 2) (Concrete FlyingWindows) = Some FlyingWindows"
proof -
  have h1: "config (env_of [(''mode'', JStr ''plasma'')]) ''mode'' = Some (JStr ''plasma'') \<and>
      JStr ''plasma'' \<notin> {JStr ''beziers'', JStr ''mystify'', JStr ''flyingWindows'', JStr ''random''}"
    by (simp add: env_of_def)
  have h2: "(0::real) \<le> 1 / 2 \<and> (1 / 2 :: real) \<le> 1 - 1 / 2 ^ 53" by simp
  have h3: "(0::real) \<le> 6004799503160661 / 2 ^ 53 \<and>
      (6004799503160661 / 2 ^ 53 :: real) \<le> 1 - 1 / 2 ^ 53" by simp
  note t = mode_resolution [of "env_of [(''mode'', JStr ''plasma'')]" "1 / 2" FlyingWindows Random]
  note u = mode_resolution [of "env_of []" "6004799503160661 / 2 ^ 53" FlyingWindows Random]
  note a = t [THEN conjunct1, THEN spec, THEN mp, OF h1]
  note b = t [THEN conjunct2, THEN conjunct1]
  note c = t [THEN conjunct2, THEN conjunct2, THEN conjunct2, THEN conjunct2, THEN conjunct2,
      THEN mp, OF h2, THEN conjunct2, THEN conjunct1]
  note d = u [THEN conjunct2, THEN conjunct2, THEN conjunct2, THEN conjunct2, THEN conjunct2,
      THEN mp, OF h3, THEN conjunct2, THEN conjunct2]
  have "resolveScreenSaver (1 / 2) Random = Some Mystify" using c by simp
  moreover have "resolveScreenSaver (6004799503160661 / 2 ^ 53) Random = Some FlyingWindows"
    using d by simp
  ultimately show ?thesis using a b by simp
qed

subsection \<open>C1: re-arming the idle timer\<close>




subsection \<open>C7: the toggle command\<close>

text \<open>
  Claim C7. The toggle command stops the panel when one is shown (the
  reference is cleared and the panel closed) and otherwise shows the
  configured mode: it runs \<open>show\<close> on it, which opens a panel titled after the
  animation the mode resolves to and loads that animation's document.
\<close>

theorem toggle_command:
  "(\<forall>p. currentPanel s = Some p \<longrightarrow>
      toggleScreenSaver e s = (stopScreensaver e s, None) \<and>
      currentPanel (fst (toggleScreenSaver e s)) = None \<and>
      panel_handle p \<notin> set (openPanels (fst (toggleScreenSaver e s)))) \<and>
   (currentPanel s = None \<longrightarrow>
      toggleScreenSaver e s = show e (getConfiguredMode e) s \<and>
      resolveScreenSaver (Math_random e) (getConfiguredMode e) \<noteq> None \<and>
      (\<forall>j. resolveScreenSaver (Math_random e) (getConfiguredMode e) = Some j \<longrightarrow>
         openPanels (fst (toggleScreenSaver e s)) = openPanels s @ [nextHandle s] \<and>
         currentPanel (fst (toggleScreenSaver e s)) =
           Some \<lparr>panel_handle = nextHandle s,
                 panel_title = ''ScreenSaver: '' @ fst (SCREENSAVERS j),
                 panel_html = (case webviewHtml e (snd (SCREENSAVERS j))
                                      (truthy (getPreventDisplaySleepEnabled e)) of
                                 None \<Rightarrow> [] | Some html \<Rightarrow> html)\<rparr>))"
proof -
  have a: "toggleScreenSaver e s = (stopScreensaver e s, None) \<and>
      currentPanel (fst (toggleScreenSaver e s)) = None \<and>
      panel_handle p \<notin> set (openPanels (fst (toggleScreenSaver e s)))"
    if "currentPanel s = Some p" for p
    using that stopScreensaver_stops(1,2)[OF that, of e] by (simp add: toggleScreenSaver_def)
  have b: "toggleScreenSaver e s = show e (getConfiguredMode e) s" if "currentPanel s = None"
    using that by (simp add: toggleScreenSaver_def)
  have c: "openPanels (fst (toggleScreenSaver e s)) = openPanels s @ [nextHandle s] \<and>
         currentPanel (fst (toggleScreenSaver e s)) =
           Some \<lparr>panel_handle = nextHandle s,
                 panel_title = ''ScreenSaver: '' @ fst (SCREENSAVERS j),
                 panel_html = (case webviewHtml e (snd (SCREENSAVERS j))
                                      (truthy (getPreventDisplaySleepEnabled e)) of
                                 None \<Rightarrow> [] | Some html \<Rightarrow> html)\<rparr>"
    if "currentPanel s = None" "resolveScreenSaver (Math_random e) (getConfiguredMode e) = Some j" for j
    using show_opens(1,2)[OF that] by (simp add: b[OF that(1)])
  show ?thesis using a b c resolveScreenSaver_defined by blast
qed

text \<open>Toggling closes the Beziers panel; with mode \<open>flyingWindows\<close> and no panel it opens Flying Windows.\<close>

theorem toggle_command_witness:
  "currentPanel (fst (toggleScreenSaver (env_of []) shown_state)) = None \<and>
   1 \<notin> set (openPanels (fst (toggleScreenSaver (env_of []) shown_state))) \<and>
   openPanels (fst (toggleScreenSaver (env_of [(''mode'', JStr ''flyingWindows'')]) armed_state)) = [1] \<and>
   currentPanel (fst (toggleScreenSaver (env_of [(''mode'', JStr ''flyingWindows'')]) armed_state)) =
     Some \<lparr>panel_handle = 1, panel_title = ''ScreenSaver: Flying Windows'',
           panel_html = ''screensavers/flying-windows.html''\<rparr>"
proof -
  let ?ef = "env_of [(''mode'', JStr ''flyingWindows'')]"
  have h1: "currentPanel shown_state =
      Some \<lparr>panel_handle = 1, panel_title = ''ScreenSaver: Beziers'',
            panel_html = ''screensavers/beziers.html''\<rparr>"
    by (simp add: shown_state_eq)
  have h2: "currentPanel armed_state = None" by (simp add: armed_state_eq)
  have h3: "resolveScreenSaver (Math_random ?ef) (getConfiguredMode ?ef) = Some FlyingWindows"
    by (simp add: resolveScreenSaver_def fixture_defs accessor_defs)
  have n1: "nextHandle armed_state = 1" "openPanels armed_state = []"
    by (simp_all add: armed_state_eq)
  have w: "webviewHtml ?ef f b = Some f" for f b by (simp add: env_of_def)
  note a = toggle_command [of shown_state "env_of []", THEN conjunct1, THEN spec, THEN mp, OF h1,
      THEN conjunct2]
  note b = toggle_command [of armed_state ?ef, THEN conjunct2, THEN mp, OF h2, THEN conjunct2,
      THEN conjunct2, THEN spec, THEN mp, OF h3]
  show ?thesis using a b by (simp add: n1 w)
qed

subsection \<open>C8: inbound webview messages\<close>

text \<open>
  Claim C8. The message listener calls \<open>handleUserActivity\<close> with suppression
  bypassed if and only if the message is an object whose \<open>type\<close> field is the
  activity tag; on a shown panel this is visible as the panel being stopped.
  Every other message leaves the state unchanged, and no message makes the
  listener throw.
\<close>

theorem webview_message_contract:
  "onDidReceiveMessage e m s =
     ((if is_activity_message m then handleUserActivity e True s else s), None) \<and>
   (currentPanel s \<noteq> None \<longrightarrow>
      (currentPanel (fst (onDidReceiveMessage e m s)) = None \<longleftrightarrow> is_activity_message m))"
proof -
  have a: "onDidReceiveMessage e m s =
     ((if is_activity_message m then handleUserActivity e True s else s), None)"
  proof (cases m)
    case (JNum n)
    then show ?thesis by (cases n) (simp_all add: onDidReceiveMessage_def)
  next
    case (JObj fs)
    then show ?thesis
      by (simp add: onDidReceiveMessage_def WEBVIEW_ACTIVITY_MESSAGE_TYPE_def
          split: option.splits)
  qed (simp_all add: onDidReceiveMessage_def)
  have b: "currentPanel (handleUserActivity e True s) = None" if "currentPanel s \<noteq> None"
    using that by (auto simp: handleUserActivity_def stopScreensaver_stops)
  show ?thesis using a b by auto
qed

text \<open>
  The tagged object stops the shown panel; an object with another tag, null
  and the bare tag string are ignored.
\<close>

theorem webview_message_contract_witness:
  "currentPanel (fst (onDidReceiveMessage (env_of [])
      (JObj [(''type'', JStr ''otakScreensaver.userActivity'')]) shown_state)) = None \<and>
   onDidReceiveMessage (env_of []) (JObj [(''type'', JStr ''other'')]) shown_state
      = (shown_state, None) \<and>
   onDidReceiveMessage (env_of []) JNull shown_state = (shown_state, None) \<and>
   onDidReceiveMessage (env_of []) (JStr ''otakScreensaver.userActivity'') shown_state
      = (shown_state, None)"
proof -
  have h: "currentPanel shown_state \<noteq> None" by (simp add: shown_state_eq)
  note a = webview_message_contract [of "env_of []"
      "JObj [(''type'', JStr ''otakScreensaver.userActivity'')]" shown_state,
      THEN conjunct2, THEN mp, OF h]
  note b = webview_message_contract [of "env_of []" "JObj [(''type'', JStr ''other'')]" shown_state,
      THEN conjunct1]
  note c = webview_message_contract [of "env_of []" JNull shown_state, THEN conjunct1]
  note d = webview_message_contract [of "env_of []" "JStr ''otakScreensaver.userActivity''"
      shown_state, THEN conjunct1]
  show ?thesis using a b c d by simp
qed

subsection \<open>C3: disposing the subscriptions\<close>

text \<open>
  Claim C3, amended. Disposing the subscription set cancels the pending idle
  timer and the running keep-alive interval and clears both handles; the panel
  reference and the open panels are left as they are.
\<close>

theorem teardown_cancels_timers:
  "\<not> disposed s \<longrightarrow>
     idleTimer (dispose_subscriptions s) = None \<and>
     codespacesKeepAliveTimer (dispose_subscriptions s) = None \<and>
     (\<forall>h. idleTimer s = Some h \<longrightarrow> h \<notin> set (map fst (timeouts (dispose_subscriptions s)))) \<and>
     (\<forall>h. codespacesKeepAliveTimer s = Some h \<longrightarrow>
          h \<notin> set (map fst (intervals (dispose_subscriptions s)))) \<and>
     currentPanel (dispose_subscriptions s) = currentPanel s \<and>
     openPanels (dispose_subscriptions s) = openPanels s"
  by (auto simp: dispose_subscriptions_def teardown_def clearTimeout_def clearInterval_def Let_def
      split: option.splits)

text \<open>After activation in a Codespace both timers are pending, and both are cancelled.\<close>

theorem teardown_cancels_timers_witness:
  "\<not> disposed codespaces_state \<and>
   idleTimer (dispose_subscriptions codespaces_state) = None \<and>
   codespacesKeepAliveTimer (dispose_subscriptions codespaces_state) = None \<and>
   0 \<notin> set (map fst (timeouts (dispose_subscriptions codespaces_state))) \<and>
   1 \<notin> set (map fst (intervals (dispose_subscriptions codespaces_state)))"
proof -
  have h: "\<not> disposed codespaces_state" by (simp add: codespaces_state_eq)
  have h1: "idleTimer codespaces_state = Some 0" "codespacesKeepAliveTimer codespaces_state = Some 1"
    by (simp_all add: codespaces_state_eq)
  note t = teardown_cancels_timers [of codespaces_state, THEN mp, OF h]
  note a = t [THEN conjunct1]
  note b = t [THEN conjunct2, THEN conjunct1]
  note c = t [THEN conjunct2, THEN conjunct2, THEN conjunct1, THEN spec, THEN mp, OF h1(1)]
  note d = t [THEN conjunct2, THEN conjunct2, THEN conjunct2, THEN conjunct1, THEN spec, THEN mp,
      OF h1(2)]
  show ?thesis using h a b c d by simp
qed

text \<open>
  The claim as stated fails on a shown panel: after the disposal the panel is
  still referenced and still open.
\<close>

theorem teardown_panel_counterexample:
  "\<not> disposed shown_state \<and>
   currentPanel shown_state =
     Some \<lparr>panel_handle = 1, panel_title = ''ScreenSaver: Beziers'',
           panel_html = ''screensavers/beziers.html''\<rparr> \<and>
   currentPanel (dispose_subscriptions shown_state) = currentPanel shown_state \<and>
   1 \<in> set (openPanels (dispose_subscriptions shown_state))"
  by (simp add: shown_state_eq dispose_subscriptions_def teardown_def clearTimeout_def)

subsection \<open>C9: heartbeats do not overlap\<close>

text \<open>
  Claim C9. In every state reached from activation by any sequence of host
  callbacks at most one heartbeat call is suspended, and the in-flight flag is
  set exactly then (when activation fails there is no controller and no
  callback runs). A tick while the flag is set returns without starting a
  call; a tick while it is clear sets it and starts one; the flag is cleared
  when the running call ends, by its last await resolving or by any await
  rejecting.
\<close>

theorem heartbeats_never_overlap:
  "(\<forall>s0. snd (activate e st) = Inr s0 \<longrightarrow>
      length (heartbeats (run evs s0)) \<le> 1 \<and>
      (sendingCodespacesKeepAlive (run evs s0) \<longleftrightarrow> heartbeats (run evs s0) \<noteq> [])) \<and>
   (sendingCodespacesKeepAlive s \<longrightarrow> heartbeat s = s) \<and>
   (\<not> sendingCodespacesKeepAlive s \<longrightarrow>
      heartbeat s = s\<lparr>sendingCodespacesKeepAlive := True,
                      heartbeats := heartbeats s @ [CreateDirectory]\<rparr>) \<and>
   (i < length (heartbeats s) \<longrightarrow>
      \<not> sendingCodespacesKeepAlive (heartbeat_settled i False s) \<and>
      (heartbeats s ! i = SetContext \<longrightarrow>
         \<not> sendingCodespacesKeepAlive (heartbeat_settled i True s)))"
proof -
  have "heartbeat_inv (run evs s0)" if "snd (activate e st) = Inr s0" for s0
    using heartbeat_inv_run [OF heartbeat_inv_start, of evs e] activate_started [OF that]
    by simp
  then show ?thesis
    by (simp add: heartbeat_inv_def heartbeat_def heartbeat_settled_def heartbeat_finished_def)
qed

text \<open>
  In a Codespace the first heartbeat starts at activation, so the first tick
  of the interval is skipped; a rejected await and the last await resolving
  both clear the flag.
\<close>

theorem heartbeats_never_overlap_witness:
  "snd (activate env_codespaces (storage_of [] [] [] None)) = Inr codespaces_state \<and>
   length (heartbeats (run [(env_codespaces, IntervalFired 1)] codespaces_state)) \<le> 1 \<and>
   run [(env_codespaces, IntervalFired 1)] codespaces_state = codespaces_state \<and>
   heartbeat codespaces_state = codespaces_state \<and>
   heartbeats (heartbeat armed_state) = [CreateDirectory] \<and>
   \<not> sendingCodespacesKeepAlive (heartbeat_settled 0 False codespaces_state) \<and>
   \<not> sendingCodespacesKeepAlive (heartbeat_settled 0 True last_await_state)"
proof -
  let ?st = "storage_of [] [] [] None"
  have h0: "snd (activate env_codespaces ?st) = Inr codespaces_state"
    by (simp add: activate_def migrateSettings_def overwriteSetting_def inspect_def
        config_update_def store_def scope_value_def storage_of_def codespaces_state_def
        SETTINGS_MIGRATION_VERSION_def Let_def)
  have r: "run [(env_codespaces, IntervalFired 1)] codespaces_state = codespaces_state"
    by (simp add: step_def heartbeat_def codespaces_state_eq)
  have h1: "sendingCodespacesKeepAlive codespaces_state"
    and h2: "\<not> sendingCodespacesKeepAlive armed_state"
    and h3: "0 < length (heartbeats codespaces_state)"
    and h4: "0 < length (heartbeats last_await_state)"
    and h5: "heartbeats last_await_state ! 0 = SetContext"
    by (simp_all add: last_await_state_eq codespaces_state_eq armed_state_eq)
  note t = heartbeats_never_overlap [of env_codespaces ?st "[(env_codespaces, IntervalFired 1)]"]
  note a = t [of codespaces_state 0, THEN conjunct1, THEN spec, THEN mp, OF h0, THEN conjunct1]
  note b = t [of codespaces_state 0, THEN conjunct2, THEN conjunct1, THEN mp, OF h1]
  note c = t [of armed_state 0, THEN conjunct2, THEN conjunct2, THEN conjunct1, THEN mp, OF h2]
  note d = t [of codespaces_state 0, THEN conjunct2, THEN conjunct2, THEN conjunct2,
      THEN mp, OF h3, THEN conjunct1]
  note e = t [of last_await_state 0, THEN conjunct2, THEN conjunct2, THEN conjunct2,
      THEN mp, OF h4, THEN conjunct2, THEN mp, OF h5]
  have "heartbeats (heartbeat armed_state) = [CreateDirectory]"
    using c by (simp add: armed_state_eq)
  with h0 a r b d e show ?thesis by simp
qed

subsection \<open>C6: the settings migration\<close>


end
